theory Spec2Isabelle
  imports Complex_Main "HOL-Library.AList"
begin

section \<open>Personalized calibration and classification engine\<close>

text \<open>
  The two Python modules \<^verbatim>\<open>Code/Model/lightGBM/lightGBM.py\<close> and
  \<^verbatim>\<open>Code/app/src/main/python/personalized_posture_detector.py\<close> (class
  \<^verbatim>\<open>PersonalizedPostureDetector\<close>, prefix \<open>PPD_\<close> below) share most of their code.
  Where the two agree, one definition stands for both; where they differ, each gets its
  own definition.

  Python floats are idealised as real numbers throughout: rounding, overflow, infinities
  and NaN are outside this development.
\<close>

subsection \<open>Angle triples, rules and constants\<close>

text \<open>
  The dictionaries with the three fixed keys \<^verbatim>\<open>'neck'\<close>, \<^verbatim>\<open>'back'\<close>, \<^verbatim>\<open>'legs'\<close> are
  functions on the three regions; \<^verbatim>\<open>d[r]\<close> is application.
\<close>

datatype region = Neck | Back | Legs

type_synonym angles = "region \<Rightarrow> real"

definition mk_angles :: "real \<Rightarrow> real \<Rightarrow> real \<Rightarrow> angles" where
  "mk_angles n b l = (\<lambda>r. case r of Neck \<Rightarrow> n | Back \<Rightarrow> b | Legs \<Rightarrow> l)"

definition regions :: "region list" where
  "regions = [Neck, Back, Legs]"

record rule =
  rule_min :: real
  rule_max :: real
  low_suggestion :: string
  high_suggestion :: string

type_synonym rules = "region \<Rightarrow> rule"

definition CONFIDENCE_THRESHOLD :: real where
  "CONFIDENCE_THRESHOLD = 75 / 100"

definition POSTURE_TOLERANCE :: "region \<Rightarrow> real" where
  "POSTURE_TOLERANCE r = (case r of Neck \<Rightarrow> 10 | Back \<Rightarrow> 10 | Legs \<Rightarrow> 10)"

definition ANGLE_WEIGHTS :: "region \<Rightarrow> real" where
  "ANGLE_WEIGHTS r = (case r of Neck \<Rightarrow> 1 | Back \<Rightarrow> 15 / 10 | Legs \<Rightarrow> 5 / 10)"

record limits =
  limit_min :: real
  limit_max :: real

definition ANGLE_LIMITS :: "region \<Rightarrow> limits" where
  "ANGLE_LIMITS r = (case r of
      Neck \<Rightarrow> \<lparr>limit_min = 12519 / 100, limit_max = 17845 / 100\<rparr>
    | Back \<Rightarrow> \<lparr>limit_min = 5970 / 100, limit_max = 14525 / 100\<rparr>
    | Legs \<Rightarrow> \<lparr>limit_min = 8613 / 100, limit_max = 16473 / 100\<rparr>)"

definition POSTURE_SUGGESTIONS_low :: "region \<Rightarrow> string" where
  "POSTURE_SUGGESTIONS_low r = (case r of
      Neck \<Rightarrow> ''FIX: Your neck is bent too far forward. Tuck your chin in.''
    | Back \<Rightarrow> ''FIX: You are slouching. Sit up straight and engage your core.''
    | Legs \<Rightarrow> ''FIX: Your knees are too bent. Adjust your seating or footrest.'')"

definition POSTURE_SUGGESTIONS_high :: "region \<Rightarrow> string" where
  "POSTURE_SUGGESTIONS_high r = (case r of
      Neck \<Rightarrow> ''FIX: Avoid tilting your head too far back.''
    | Back \<Rightarrow> ''FIX: You are leaning back too far. Bring your torso upright.''
    | Legs \<Rightarrow> ''FIX: Your legs are too extended. Place your feet flat on the floor.'')"

subsection \<open>Angle of three points\<close>

text \<open>
  \<^verbatim>\<open>calculate_angle(a, b, c)\<close>: the vectors \<open>ba\<close> and \<open>bc\<close>, their dot product and
  norms, the cosine clipped to \<open>[-1, 1]\<close>, and the arc cosine in degrees.
  \<^verbatim>\<open>np.clip(v, lo, hi)\<close> is \<open>min (max v lo) hi\<close>.
\<close>

type_synonym point2 = "real \<times> real"

definition vsub :: "point2 \<Rightarrow> point2 \<Rightarrow> point2" where
  "vsub p q = (fst p - fst q, snd p - snd q)"

definition np_dot :: "point2 \<Rightarrow> point2 \<Rightarrow> real" where
  "np_dot p q = fst p * fst q + snd p * snd q"

definition np_norm :: "point2 \<Rightarrow> real" where
  "np_norm p = sqrt (fst p * fst p + snd p * snd p)"

definition np_clip :: "real \<Rightarrow> real \<Rightarrow> real \<Rightarrow> real" where
  "np_clip v lo hi = min (max v lo) hi"

definition np_degrees :: "real \<Rightarrow> real" where
  "np_degrees x = x * 180 / pi"

definition calculate_angle :: "point2 \<Rightarrow> point2 \<Rightarrow> point2 \<Rightarrow> real" where
  "calculate_angle a b c =
     (let ba = vsub a b; bc = vsub c b;
          dot_product = np_dot ba bc;
          magnitude_ba = np_norm ba; magnitude_bc = np_norm bc;
          cosine_angle = np_clip (dot_product / (magnitude_ba * magnitude_bc + 1 / 1000000)) (- 1) 1
      in np_degrees (arccos cosine_angle))"

subsection \<open>Rule classifier and scorer\<close>

definition build_manual_rules :: "angles \<Rightarrow> rules" where
  "build_manual_rules personal_angles = (\<lambda>region.
     let tolerance = POSTURE_TOLERANCE region in
     \<lparr>rule_min = personal_angles region - tolerance,
      rule_max = personal_angles region + tolerance,
      low_suggestion = POSTURE_SUGGESTIONS_low region,
      high_suggestion = POSTURE_SUGGESTIONS_high region\<rparr>)"

text \<open>
  \<^verbatim>\<open>compute_manual_max_deviation\<close>: the loop over the regions accumulates
  \<open>threshold\<close>. Every key of an angle triple has limits and a weight, so the
  \<^verbatim>\<open>continue\<close> branch and the default weight are never taken.
\<close>

definition worst_diff :: "region \<Rightarrow> real \<Rightarrow> real" where
  "worst_diff region ideal =
     (let lim = ANGLE_LIMITS region;
          worst_angle = (if \<bar>limit_min lim - ideal\<bar> > \<bar>limit_max lim - ideal\<bar>
                         then limit_min lim else limit_max lim)
      in \<bar>worst_angle - ideal\<bar>)"

definition compute_manual_max_deviation :: "angles \<Rightarrow> real" where
  "compute_manual_max_deviation personal_angles =
     foldl (\<lambda>threshold region.
              threshold + ANGLE_WEIGHTS region * (worst_diff region (personal_angles region))\<^sup>2)
           0 regions"

definition weighted_deviation :: "angles \<Rightarrow> angles \<Rightarrow> real" where
  "weighted_deviation current_angles personal_angles =
     sum_list (map (\<lambda>region. ANGLE_WEIGHTS region *
                      (current_angles region - personal_angles region)\<^sup>2) regions)"

definition calculate_manual_score :: "angles \<Rightarrow> angles \<Rightarrow> real \<Rightarrow> real" where
  "calculate_manual_score current_angles personal_angles max_threshold =
     (let wd = weighted_deviation current_angles personal_angles in
      if max_threshold \<le> 0 then (if wd \<le> 1 / 1000000 then 100 else 0)
      else let score = 1 - wd / max_threshold in max 0 (min 100 (score * 100)))"

definition axis_state :: "angles \<Rightarrow> rules \<Rightarrow> region \<Rightarrow> string" where
  "axis_state angs rls r =
     (if rule_min (rls r) \<le> angs r \<and> angs r \<le> rule_max (rls r) then ''GOOD'' else ''BAD'')"

definition posture_states :: "((string \<times> string \<times> string) \<times> string) list" where
  "posture_states =
     [((''GOOD'', ''GOOD'', ''GOOD''), ''Aligned Posture''),
      ((''GOOD'', ''GOOD'', ''BAD''), ''Legs Misalignment''),
      ((''GOOD'', ''BAD'', ''GOOD''), ''Back Misalignment''),
      ((''GOOD'', ''BAD'', ''BAD''), ''Back & Legs Misalignment''),
      ((''BAD'', ''GOOD'', ''GOOD''), ''Neck Misalignment''),
      ((''BAD'', ''GOOD'', ''BAD''), ''Neck & Legs Misalignment''),
      ((''BAD'', ''BAD'', ''GOOD''), ''Neck & Back Misalignment''),
      ((''BAD'', ''BAD'', ''BAD''), ''Full Body Misalignment'')]"

definition classify_posture_state :: "angles \<Rightarrow> rules \<Rightarrow> string" where
  "classify_posture_state angs rls =
     (let state = (axis_state angs rls Neck, axis_state angs rls Back, axis_state angs rls Legs)
      in case map_of posture_states state of Some label \<Rightarrow> label | None \<Rightarrow> ''Unknown'')"

record analysis_row =
  row_region :: region
  row_angle :: real
  row_status :: string
  row_suggestion :: string

record manual_summary =
  summary_label :: string
  summary_score :: real
  summary_details :: "analysis_row list"

definition analysis_row_of :: "angles \<Rightarrow> rules \<Rightarrow> region \<Rightarrow> analysis_row" where
  "analysis_row_of current_angles manual_rules region =
     (let angle = current_angles region; rl = manual_rules region in
      if angle < rule_min rl then
        \<lparr>row_region = region, row_angle = angle,
         row_status = ''INCORRECT (Too Bent/Forward)'', row_suggestion = low_suggestion rl\<rparr>
      else if angle > rule_max rl then
        \<lparr>row_region = region, row_angle = angle,
         row_status = ''INCORRECT (Too Reclined/Extended)'', row_suggestion = high_suggestion rl\<rparr>
      else
        \<lparr>row_region = region, row_angle = angle,
         row_status = ''GOOD'', row_suggestion = ''No correction needed.''\<rparr>)"

definition run_manual_posture_check :: "angles \<Rightarrow> angles \<Rightarrow> manual_summary" where
  "run_manual_posture_check current_angles personal_angles =
     (let manual_rules = build_manual_rules personal_angles;
          max_threshold = compute_manual_max_deviation personal_angles;
          analysis_rows = map (analysis_row_of current_angles manual_rules) regions;
          manual_label = classify_posture_state current_angles manual_rules;
          manual_score = calculate_manual_score current_angles personal_angles max_threshold
      in \<lparr>summary_label = manual_label, summary_score = manual_score,
          summary_details = analysis_rows\<rparr>)"

subsection \<open>Parsed payloads\<close>

text \<open>
  A payload is what \<^verbatim>\<open>json.load\<close> returns: \<^verbatim>\<open>None\<close>, a bool, a number, a string, a
  list, or a dict with string keys, kept as an association list in key order (the parser
  yields each key once). Python's \<^verbatim>\<open>int\<close> and \<^verbatim>\<open>float\<close> are both \<open>JNum\<close>.
\<close>

datatype json = JNull | JBool bool | JNum real | JStr string
  | JArr "json list" | JObj "(string \<times> json) list"

type_synonym dict = "(string \<times> json) list"

datatype py_error = TypeError | ValueError

text \<open>
  \<^verbatim>\<open>float(v)\<close>. What \<^verbatim>\<open>float\<close> makes of a string is the parameter \<open>sf\<close>
  (\<open>None\<close> where it raises \<^verbatim>\<open>ValueError\<close>); \<^verbatim>\<open>None\<close>, lists and dicts raise
  \<^verbatim>\<open>TypeError\<close>; \<^verbatim>\<open>True\<close> is 1.
\<close>

fun py_float :: "(string \<Rightarrow> real option) \<Rightarrow> json \<Rightarrow> py_error + real" where
  "py_float sf JNull = Inl TypeError"
| "py_float sf (JBool b) = Inr (if b then 1 else 0)"
| "py_float sf (JNum r) = Inr r"
| "py_float sf (JStr s) = (case sf s of None \<Rightarrow> Inl ValueError | Some r \<Rightarrow> Inr r)"
| "py_float sf (JArr xs) = Inl TypeError"
| "py_float sf (JObj d) = Inl TypeError"

text \<open>\<^verbatim>\<open>try: float(v) except (TypeError, ValueError)\<close>: \<open>None\<close> when the handler runs.\<close>

definition try_float :: "(string \<Rightarrow> real option) \<Rightarrow> json \<Rightarrow> real option" where
  "try_float sf v = (case py_float sf v of Inl _ \<Rightarrow> None | Inr r \<Rightarrow> Some r)"

fun truthy :: "json \<Rightarrow> bool" where
  "truthy JNull = False"
| "truthy (JBool b) = b"
| "truthy (JNum r) = (r \<noteq> 0)"
| "truthy (JStr s) = (s \<noteq> [])"
| "truthy (JArr xs) = (xs \<noteq> [])"
| "truthy (JObj d) = (d \<noteq> [])"

definition py_or :: "json \<Rightarrow> json \<Rightarrow> json" where
  "py_or a b = (if truthy a then a else b)"

definition dict_get :: "dict \<Rightarrow> string \<Rightarrow> json" where
  "dict_get d k = (case map_of d k of None \<Rightarrow> JNull | Some v \<Rightarrow> v)"

definition dict_get_default :: "dict \<Rightarrow> string \<Rightarrow> json \<Rightarrow> json" where
  "dict_get_default d k dflt = (case map_of d k of None \<Rightarrow> dflt | Some v \<Rightarrow> v)"

definition has_key :: "dict \<Rightarrow> string \<Rightarrow> bool" where
  "has_key d k = (map_of d k \<noteq> None)"

text \<open>
  Keys of the dictionaries that the code builds from keypoint names. A name read from a
  list entry is any truthy value; using a list or a dict as a key raises
  \<^verbatim>\<open>TypeError\<close> (unhashable), and \<^verbatim>\<open>True\<close> is the same key as 1.
\<close>

datatype pykey = KNone | KNum real | KStr string

fun hash_key :: "json \<Rightarrow> py_error + pykey" where
  "hash_key JNull = Inr KNone"
| "hash_key (JBool b) = Inr (KNum (if b then 1 else 0))"
| "hash_key (JNum r) = Inr (KNum r)"
| "hash_key (JStr s) = Inr (KStr s)"
| "hash_key (JArr xs) = Inl TypeError"
| "hash_key (JObj d) = Inl TypeError"

type_synonym lookup = "(pykey \<times> dict) list"

subsection \<open>Keypoint normaliser\<close>

text \<open>
  \<^verbatim>\<open>_normalise_keypoints\<close>, the loop over the items of a dict: a dict payload is
  stored as it is, a list of three or more elements gives \<open>x\<close>, \<open>y\<close>, \<open>confidence\<close>,
  anything else is skipped.
\<close>

fun normalise_dict_items :: "(string \<times> json) list \<Rightarrow> lookup \<Rightarrow> lookup" where
  "normalise_dict_items [] lookup = lookup"
| "normalise_dict_items ((label, JObj d) # rest) lookup =
     normalise_dict_items rest (AList.update (KStr label) d lookup)"
| "normalise_dict_items ((label, JArr (x_val # y_val # conf # extra)) # rest) lookup =
     normalise_dict_items rest
       (AList.update (KStr label) [(''x'', x_val), (''y'', y_val), (''confidence'', conf)] lookup)"
| "normalise_dict_items ((label, other) # rest) lookup = normalise_dict_items rest lookup"

text \<open>The name of a list entry, in the order the normaliser asks for it.\<close>

definition entry_name :: "dict \<Rightarrow> json" where
  "entry_name entry =
     py_or (py_or (py_or (dict_get entry ''part_name'') (dict_get entry ''name''))
                  (dict_get entry ''part'')) (dict_get entry ''id'')"

definition entry_position :: "dict \<Rightarrow> dict" where
  "entry_position entry = (case dict_get entry ''position'' of JObj p \<Rightarrow> p | _ \<Rightarrow> [])"

definition entry_point :: "dict \<Rightarrow> dict" where
  "entry_point entry =
     (let position = entry_position entry;
          x_val = dict_get_default entry ''x'' (dict_get position ''x'');
          y_val = dict_get_default entry ''y'' (dict_get position ''y'');
          conf = dict_get_default entry ''confidence''
                   (dict_get_default entry ''score'' (dict_get entry ''probability''))
      in [(''x'', x_val), (''y'', y_val), (''confidence'', conf),
          (''visible'', dict_get_default entry ''visible''
                          (dict_get_default entry ''is_visible'' (JBool True)))])"

text \<open>The loop over the entries of a list; \<^verbatim>\<open>lookup[name] = ...\<close> hashes the name.\<close>

fun normalise_list_entries :: "json list \<Rightarrow> lookup \<Rightarrow> py_error + lookup" where
  "normalise_list_entries [] lookup = Inr lookup"
| "normalise_list_entries (JObj entry # rest) lookup =
     (let name = entry_name entry in
      if \<not> truthy name then normalise_list_entries rest lookup
      else (case hash_key name of
              Inl err \<Rightarrow> Inl err
            | Inr k \<Rightarrow> normalise_list_entries rest (AList.update k (entry_point entry) lookup)))"
| "normalise_list_entries (other # rest) lookup = normalise_list_entries rest lookup"

fun normalise_keypoints :: "json \<Rightarrow> py_error + lookup" where
  "normalise_keypoints (JObj items) = Inr (normalise_dict_items items [])"
| "normalise_keypoints (JArr entries) = normalise_list_entries entries []"
| "normalise_keypoints other = Inr []"

definition candidate_keys :: "string list" where
  "candidate_keys = [''keypoints'', ''pose_keypoints'', ''pose_keypoints_2d'']"

text \<open>
  The loop \<^verbatim>\<open>for candidate_key in (...)\<close> of \<^verbatim>\<open>_build_keypoints_lookup\<close>: the first
  candidate that is present and normalises to a non-empty lookup wins; the lookup is
  empty when the loop ends without \<^verbatim>\<open>break\<close>.
\<close>

fun first_lookup :: "dict \<Rightarrow> string list \<Rightarrow> py_error + lookup" where
  "first_lookup d [] = Inr []"
| "first_lookup d (candidate_key # ks) =
     (case map_of d candidate_key of
        None \<Rightarrow> first_lookup d ks
      | Some v \<Rightarrow>
          (case normalise_keypoints v of
             Inl err \<Rightarrow> Inl err
           | Inr keypoints_lookup \<Rightarrow>
               if keypoints_lookup \<noteq> [] then Inr keypoints_lookup else first_lookup d ks))"

definition person_lookup :: "json \<Rightarrow> py_error + lookup" where
  "person_lookup persons =
     (case persons of
        JArr (JObj person_entry # others) \<Rightarrow> first_lookup person_entry candidate_keys
      | _ \<Rightarrow> Inr [])"

definition build_keypoints_lookup :: "json \<Rightarrow> py_error + lookup" where
  "build_keypoints_lookup payload =
     (case payload of
        JObj d \<Rightarrow>
          (let persons = py_or (dict_get d ''persons'') (dict_get d ''people'') in
           (case person_lookup persons of
              Inl err \<Rightarrow> Inl err
            | Inr keypoints_lookup \<Rightarrow>
                if keypoints_lookup = [] then first_lookup d candidate_keys
                else Inr keypoints_lookup))
      | _ \<Rightarrow> Inr [])"

subsection \<open>Angle extractor\<close>

text \<open>\<^verbatim>\<open>_confidence(point)\<close>; \<open>None\<close> is a point that is not a dict.\<close>

definition confidence :: "(string \<Rightarrow> real option) \<Rightarrow> dict option \<Rightarrow> real" where
  "confidence sf point =
     (case point of
        None \<Rightarrow> 0
      | Some p \<Rightarrow>
          if dict_get p ''visible'' = JBool False then 0
          else let conf = dict_get p ''confidence'';
                   conf = (if conf = JNull then dict_get p ''score'' else conf);
                   conf = (if conf = JNull then dict_get p ''probability'' else conf)
               in (case try_float sf conf of None \<Rightarrow> 0 | Some c \<Rightarrow> c))"

datatype side = Left | Right

definition side_name :: "side \<Rightarrow> string" where
  "side_name s = (case s of Left \<Rightarrow> ''left'' | Right \<Rightarrow> ''right'')"

text \<open>Lines 349 to 351: the side whose ear is more confident, left on a tie.\<close>

definition select_side :: "(string \<Rightarrow> real option) \<Rightarrow> lookup \<Rightarrow> side" where
  "select_side sf keypoints_lookup =
     (let left_ear_conf = confidence sf (map_of keypoints_lookup (KStr ''left_ear''));
          right_ear_conf = confidence sf (map_of keypoints_lookup (KStr ''right_ear''))
      in if left_ear_conf \<ge> right_ear_conf then Left else Right)"

definition part_key :: "side \<Rightarrow> string \<Rightarrow> pykey" where
  "part_key s part = KStr (side_name s @ ''_'' @ part)"


text \<open>
  One round of the loop over \<^verbatim>\<open>required_parts\<close>: \<open>None\<close> is \<^verbatim>\<open>return None\<close>,
  otherwise the coordinates stored under the part.
\<close>

definition part_coords :: "(string \<Rightarrow> real option) \<Rightarrow> lookup \<Rightarrow> side \<Rightarrow> string \<Rightarrow> point2 option" where
  "part_coords sf keypoints_lookup s part =
     (let point = map_of keypoints_lookup (part_key s part) in
      if confidence sf point < CONFIDENCE_THRESHOLD then None
      else (case point of
              None \<Rightarrow> None
            | Some p \<Rightarrow>
                (case try_float sf (dict_get p ''x'') of
                   None \<Rightarrow> None
                 | Some x_val \<Rightarrow>
                     (case try_float sf (dict_get p ''y'') of
                        None \<Rightarrow> None
                      | Some y_val \<Rightarrow> Some (x_val, y_val)))))"

text \<open>The geometric path from a non-empty lookup on (lines 349 to 377).\<close>

definition angles_from_lookup :: "(string \<Rightarrow> real option) \<Rightarrow> lookup \<Rightarrow> angles option" where
  "angles_from_lookup sf keypoints_lookup =
     (let s = select_side sf keypoints_lookup in
      Option.bind (part_coords sf keypoints_lookup s ''ear'') (\<lambda>ear.
      Option.bind (part_coords sf keypoints_lookup s ''shoulder'') (\<lambda>shoulder.
      Option.bind (part_coords sf keypoints_lookup s ''hip'') (\<lambda>hip.
      Option.bind (part_coords sf keypoints_lookup s ''knee'') (\<lambda>knee.
      Option.bind (part_coords sf keypoints_lookup s ''ankle'') (\<lambda>ankle.
        Some (mk_angles (calculate_angle hip shoulder ear)
                        (calculate_angle knee hip shoulder)
                        (calculate_angle ankle knee hip))))))))"

definition geometric_angles :: "(string \<Rightarrow> real option) \<Rightarrow> json \<Rightarrow> py_error + angles option" where
  "geometric_angles sf data =
     (case build_keypoints_lookup data of
        Inl err \<Rightarrow> Inl err
      | Inr keypoints_lookup \<Rightarrow>
          if keypoints_lookup = [] then Inr None
          else Inr (angles_from_lookup sf keypoints_lookup))"

text \<open>
  \<^verbatim>\<open>_extract_angles\<close> of \<^verbatim>\<open>lightGBM.py\<close>: the three conversions run in the order
  neck, back, legs, and the first one that raises ends the call.
\<close>

definition extract_angles :: "(string \<Rightarrow> real option) \<Rightarrow> json \<Rightarrow> py_error + angles option" where
  "extract_angles sf candidate =
     (case candidate of
        JObj c \<Rightarrow>
          if has_key c ''neck'' \<and> has_key c ''back'' \<and> has_key c ''legs'' then
            (case py_float sf (dict_get c ''neck'') of Inl err \<Rightarrow> Inl err | Inr n \<Rightarrow>
            (case py_float sf (dict_get c ''back'') of Inl err \<Rightarrow> Inl err | Inr b \<Rightarrow>
            (case py_float sf (dict_get c ''legs'') of Inl err \<Rightarrow> Inl err | Inr l \<Rightarrow>
               Inr (Some (mk_angles n b l)))))
          else Inr None
      | _ \<Rightarrow> Inr None)"

text \<open>
  \<^verbatim>\<open>_extract_angles\<close> of \<^verbatim>\<open>PersonalizedPostureDetector\<close>: the conversions are
  inside \<^verbatim>\<open>try ... except (TypeError, ValueError): return None\<close>.
\<close>

definition PPD_extract_angles :: "(string \<Rightarrow> real option) \<Rightarrow> json \<Rightarrow> angles option" where
  "PPD_extract_angles sf candidate =
     (case candidate of
        JObj c \<Rightarrow>
          if has_key c ''neck'' \<and> has_key c ''back'' \<and> has_key c ''legs'' then
            (case try_float sf (dict_get c ''neck'') of None \<Rightarrow> None | Some n \<Rightarrow>
            (case try_float sf (dict_get c ''back'') of None \<Rightarrow> None | Some b \<Rightarrow>
            (case try_float sf (dict_get c ''legs'') of None \<Rightarrow> None | Some l \<Rightarrow>
               Some (mk_angles n b l))))
          else None
      | _ \<Rightarrow> None)"

text \<open>The loop over the keys of the sub-objects that may carry angles.\<close>

fun first_angles :: "(string \<Rightarrow> real option) \<Rightarrow> dict \<Rightarrow> string list \<Rightarrow> py_error + angles option" where
  "first_angles sf d [] = Inr None"
| "first_angles sf d (key # keys) =
     (case extract_angles sf (dict_get d key) of
        Inl err \<Rightarrow> Inl err
      | Inr (Some a) \<Rightarrow> Inr (Some a)
      | Inr None \<Rightarrow> first_angles sf d keys)"

fun PPD_first_angles :: "(string \<Rightarrow> real option) \<Rightarrow> dict \<Rightarrow> string list \<Rightarrow> angles option" where
  "PPD_first_angles sf d [] = None"
| "PPD_first_angles sf d (key # keys) =
     (case PPD_extract_angles sf (dict_get d key) of
        Some a \<Rightarrow> Some a
      | None \<Rightarrow> PPD_first_angles sf d keys)"

definition angle_keys :: "string list" where
  "angle_keys = [''adjusted_angles'', ''personalized_angles'', ''angles'']"

definition PPD_angle_keys :: "string list" where
  "PPD_angle_keys = [''adjusted_angles'', ''personalized_angles'', ''angles'', ''reference_angles'']"

definition get_angles_from_payload :: "(string \<Rightarrow> real option) \<Rightarrow> json \<Rightarrow> py_error + angles option" where
  "get_angles_from_payload sf data =
     (case data of
        JObj d \<Rightarrow>
          (case first_angles sf d angle_keys of
             Inl err \<Rightarrow> Inl err
           | Inr (Some a) \<Rightarrow> Inr (Some a)
           | Inr None \<Rightarrow>
               (case extract_angles sf data of
                  Inl err \<Rightarrow> Inl err
                | Inr (Some direct_angles) \<Rightarrow> Inr (Some direct_angles)
                | Inr None \<Rightarrow> geometric_angles sf data))
      | _ \<Rightarrow> geometric_angles sf data)"

definition PPD_get_angles_from_payload :: "(string \<Rightarrow> real option) \<Rightarrow> json \<Rightarrow> py_error + angles option" where
  "PPD_get_angles_from_payload sf data =
     (case data of
        JObj d \<Rightarrow>
          (case PPD_first_angles sf d PPD_angle_keys of
             Some a \<Rightarrow> Inr (Some a)
           | None \<Rightarrow>
               (case PPD_extract_angles sf data of
                  Some direct \<Rightarrow> Inr (Some direct)
                | None \<Rightarrow> geometric_angles sf data))
      | _ \<Rightarrow> geometric_angles sf data)"

subsection \<open>Reference resolver\<close>

text \<open>
  The file system as the resolver sees it: a path names no file, a file that
  \<^verbatim>\<open>json.load\<close> rejects, or a parsed payload. \<^verbatim>\<open>open\<close> and \<^verbatim>\<open>json.load\<close> run
  inside \<^verbatim>\<open>try ... except Exception: return None\<close>; the extraction runs after it.
\<close>

datatype file_state = Missing | Unparsable | Parsed json

type_synonym files = "string \<Rightarrow> file_state"

definition path_exists :: "files \<Rightarrow> string \<Rightarrow> bool" where
  "path_exists fs path = (fs path \<noteq> Missing)"

definition get_angles_from_keypoint_file ::
  "(string \<Rightarrow> real option) \<Rightarrow> files \<Rightarrow> string \<Rightarrow> py_error + angles option" where
  "get_angles_from_keypoint_file sf fs filepath =
     (case fs filepath of
        Parsed data \<Rightarrow> get_angles_from_payload sf data
      | _ \<Rightarrow> Inr None)"

definition PPD_load_reference_angles ::
  "(string \<Rightarrow> real option) \<Rightarrow> files \<Rightarrow> string \<Rightarrow> py_error + angles option" where
  "PPD_load_reference_angles sf fs reference_path =
     (case fs reference_path of
        Parsed data \<Rightarrow> PPD_get_angles_from_payload sf data
      | _ \<Rightarrow> Inr None)"

record resolution =
  res_base_angles :: angles
  res_personal_angles :: angles
  res_offsets :: angles
  res_personal_path :: string

text \<open>
  \<^verbatim>\<open>{k: float(personal_angles[k] - base_angles.get(k, personal_angles[k])) for k in ...}\<close>;
  the base triple has every key, so the default of \<^verbatim>\<open>get\<close> is never used.
\<close>

definition angle_offsets :: "angles \<Rightarrow> angles \<Rightarrow> angles" where
  "angle_offsets personal_angles base_angles = (\<lambda>k. personal_angles k - base_angles k)"

text \<open>
  \<^verbatim>\<open>resolve_reference_angles\<close> of \<^verbatim>\<open>lightGBM.py\<close>. The personal path is optional;
  \<^verbatim>\<open>personal_reference_path or base_reference_path\<close> replaces \<^verbatim>\<open>None\<close> and the
  empty string by the base path.
\<close>

definition resolve_reference_angles ::
  "(string \<Rightarrow> real option) \<Rightarrow> files \<Rightarrow> string \<Rightarrow> string option \<Rightarrow> py_error + resolution option" where
  "resolve_reference_angles sf fs base_reference_path personal_reference_path =
     (let personal_path = (case personal_reference_path of
                             None \<Rightarrow> base_reference_path
                           | Some pth \<Rightarrow> if pth \<noteq> [] then pth else base_reference_path)
      in case get_angles_from_keypoint_file sf fs base_reference_path of
           Inl err \<Rightarrow> Inl err
         | Inr None \<Rightarrow> Inr None
         | Inr (Some base_angles) \<Rightarrow>
             (case get_angles_from_keypoint_file sf fs personal_path of
                Inl err \<Rightarrow> Inl err
              | Inr None \<Rightarrow>
                  Inr (Some \<lparr>res_base_angles = base_angles, res_personal_angles = base_angles,
                             res_offsets = angle_offsets base_angles base_angles,
                             res_personal_path = base_reference_path\<rparr>)
              | Inr (Some personal_angles) \<Rightarrow>
                  Inr (Some \<lparr>res_base_angles = base_angles, res_personal_angles = personal_angles,
                             res_offsets = angle_offsets personal_angles base_angles,
                             res_personal_path = personal_path\<rparr>)))"

text \<open>
  \<^verbatim>\<open>PersonalizedPostureDetector.resolve_reference_angles\<close>: the user's file is read
  only when \<^verbatim>\<open>os.path.exists\<close> holds of its path.
\<close>

definition PPD_resolve_reference_angles ::
  "(string \<Rightarrow> real option) \<Rightarrow> files \<Rightarrow> string \<Rightarrow> string \<Rightarrow> py_error + resolution option" where
  "PPD_resolve_reference_angles sf fs base_reference_file user_reference_path =
     (case PPD_load_reference_angles sf fs base_reference_file of
        Inl err \<Rightarrow> Inl err
      | Inr None \<Rightarrow> Inr None
      | Inr (Some base_angles) \<Rightarrow>
          (case (if path_exists fs user_reference_path \<and> user_reference_path \<noteq> []
                 then PPD_load_reference_angles sf fs user_reference_path
                 else Inr None) of
             Inl err \<Rightarrow> Inl err
           | Inr None \<Rightarrow>
               Inr (Some \<lparr>res_base_angles = base_angles, res_personal_angles = base_angles,
                          res_offsets = angle_offsets base_angles base_angles,
                          res_personal_path = base_reference_file\<rparr>)
           | Inr (Some personal_angles) \<Rightarrow>
               Inr (Some \<lparr>res_base_angles = base_angles, res_personal_angles = personal_angles,
                          res_offsets = angle_offsets personal_angles base_angles,
                          res_personal_path = user_reference_path\<rparr>)))"

subsection \<open>Keypoint coordinates and coordinate offsets\<close>

text \<open>
  A coordinate dictionary \<^verbatim>\<open>{'x': ..., 'y': ...}\<close> with float values, and the maps
  from keypoint names to them.
\<close>

type_synonym coord = "(string \<times> real) list"

type_synonym coord_map = "(pykey \<times> coord) list"

text \<open>
  The loop of \<^verbatim>\<open>extract_keypoint_coordinates_from_payload\<close> over the items of the
  lookup; a point whose \<open>x\<close> or \<open>y\<close> does not convert is skipped.
\<close>

fun coords_of_lookup :: "(string \<Rightarrow> real option) \<Rightarrow> lookup \<Rightarrow> coord_map \<Rightarrow> coord_map" where
  "coords_of_lookup sf [] coords = coords"
| "coords_of_lookup sf ((name, point) # rest) coords =
     (case try_float sf (dict_get point ''x'') of
        None \<Rightarrow> coords_of_lookup sf rest coords
      | Some x_val \<Rightarrow>
          (case try_float sf (dict_get point ''y'') of
             None \<Rightarrow> coords_of_lookup sf rest coords
           | Some y_val \<Rightarrow>
               coords_of_lookup sf rest
                 (AList.update name [(''x'', x_val), (''y'', y_val)] coords)))"

definition extract_keypoint_coordinates_from_payload ::
  "(string \<Rightarrow> real option) \<Rightarrow> json \<Rightarrow> py_error + coord_map" where
  "extract_keypoint_coordinates_from_payload sf payload =
     (case build_keypoints_lookup payload of
        Inl err \<Rightarrow> Inl err
      | Inr lookup \<Rightarrow> Inr (coords_of_lookup sf lookup []))"

definition load_keypoint_coordinates ::
  "(string \<Rightarrow> real option) \<Rightarrow> files \<Rightarrow> string \<Rightarrow> py_error + coord_map" where
  "load_keypoint_coordinates sf fs filepath =
     (case fs filepath of
        Parsed payload \<Rightarrow> extract_keypoint_coordinates_from_payload sf payload
      | _ \<Rightarrow> Inr [])"

text \<open>
  The loop of \<^verbatim>\<open>compute_keypoint_coordinate_offsets\<close> over the items of the base
  map. A name without a (non-empty) personal point is skipped, and so is one where a
  point lacks \<open>x\<close> or \<open>y\<close> (\<^verbatim>\<open>KeyError\<close>, caught).
\<close>

fun offsets_of_items :: "coord_map \<Rightarrow> coord_map \<Rightarrow> coord_map \<Rightarrow> coord_map" where
  "offsets_of_items [] personal_map offsets = offsets"
| "offsets_of_items ((name, base_point) # rest) personal_map offsets =
     (case map_of personal_map name of
        None \<Rightarrow> offsets_of_items rest personal_map offsets
      | Some personal_point \<Rightarrow>
          if personal_point = [] then offsets_of_items rest personal_map offsets
          else
            (case (map_of personal_point ''x'', map_of base_point ''x'',
                   map_of personal_point ''y'', map_of base_point ''y'') of
               (Some px, Some bx, Some py, Some by) \<Rightarrow>
                 offsets_of_items rest personal_map
                   (AList.update name [(''x'', px - bx), (''y'', py - by)] offsets)
             | _ \<Rightarrow> offsets_of_items rest personal_map offsets))"

definition compute_keypoint_coordinate_offsets :: "coord_map \<Rightarrow> coord_map \<Rightarrow> coord_map" where
  "compute_keypoint_coordinate_offsets base_map personal_map =
     (if base_map = [] \<or> personal_map = [] then []
      else offsets_of_items base_map personal_map [])"

subsection \<open>Coordinate re-projector\<close>

text \<open>
  \<^verbatim>\<open>apply_keypoint_offsets_to_payload\<close> works on \<^verbatim>\<open>copy.deepcopy(payload)\<close> and
  assigns only into that copy. Payloads are values here, so the copy is the payload and
  every assignment \<^verbatim>\<open>d[k] = v\<close> is the update of the dictionary it stands in.
\<close>

text \<open>\<^verbatim>\<open>delta.get(axis, 0.0)\<close>\<close>

definition delta_get :: "coord \<Rightarrow> string \<Rightarrow> real" where
  "delta_get delta axis = (case map_of delta axis of None \<Rightarrow> 0 | Some v \<Rightarrow> v)"

text \<open>
  One round of \<^verbatim>\<open>for axis in ('x', 'y')\<close>: the value is replaced when the key is
  there, is not \<^verbatim>\<open>None\<close>, and converts to a float.
\<close>

definition shift_axis :: "(string \<Rightarrow> real option) \<Rightarrow> coord \<Rightarrow> string \<Rightarrow> dict \<Rightarrow> dict" where
  "shift_axis sf delta axis d =
     (case map_of d axis of
        None \<Rightarrow> d
      | Some v \<Rightarrow>
          if v = JNull then d
          else (case try_float sf v of
                  None \<Rightarrow> d
                | Some f \<Rightarrow> AList.update axis (JNum (f + delta_get delta axis)) d))"

definition shift_axes :: "(string \<Rightarrow> real option) \<Rightarrow> coord \<Rightarrow> dict \<Rightarrow> dict" where
  "shift_axes sf delta d = shift_axis sf delta ''y'' (shift_axis sf delta ''x'' d)"

text \<open>\<^verbatim>\<open>_apply_delta(entry, name)\<close> for a dict entry and a name that hashes to \<open>k\<close>.\<close>

definition apply_delta :: "(string \<Rightarrow> real option) \<Rightarrow> coord_map \<Rightarrow> dict \<Rightarrow> pykey \<Rightarrow> dict" where
  "apply_delta sf keypoint_offsets entry k =
     (case map_of keypoint_offsets k of
        None \<Rightarrow> entry
      | Some delta \<Rightarrow>
          if delta = [] then entry
          else
            (let entry1 = shift_axes sf delta entry in
             case dict_get entry1 ''position'' of
               JObj position \<Rightarrow>
                 if position \<noteq> []
                 then AList.update ''position'' (JObj (shift_axes sf delta position)) entry1
                 else entry1
             | _ \<Rightarrow> entry1))"

text \<open>The name of a list entry, in the order the re-projector asks for it.\<close>

definition reproject_entry_name :: "dict \<Rightarrow> json" where
  "reproject_entry_name entry =
     py_or (py_or (py_or (dict_get entry ''name'') (dict_get entry ''part_name''))
                  (dict_get entry ''part'')) (dict_get entry ''id'')"

text \<open>
  \<^verbatim>\<open>_process_keypoints\<close> on a list: \<^verbatim>\<open>keypoint_offsets.get(name)\<close> hashes the
  name of every dict entry with a truthy name.
\<close>

fun process_list_entries ::
  "(string \<Rightarrow> real option) \<Rightarrow> coord_map \<Rightarrow> json list \<Rightarrow> py_error + json list" where
  "process_list_entries sf keypoint_offsets [] = Inr []"
| "process_list_entries sf keypoint_offsets (JObj entry # rest) =
     (let name = reproject_entry_name entry in
      if truthy name then
        (case hash_key name of
           Inl err \<Rightarrow> Inl err
         | Inr k \<Rightarrow>
             (case process_list_entries sf keypoint_offsets rest of
                Inl err \<Rightarrow> Inl err
              | Inr rest' \<Rightarrow> Inr (JObj (apply_delta sf keypoint_offsets entry k) # rest')))
      else
        (case process_list_entries sf keypoint_offsets rest of
           Inl err \<Rightarrow> Inl err
         | Inr rest' \<Rightarrow> Inr (JObj entry # rest')))"
| "process_list_entries sf keypoint_offsets (other # rest) =
     (case process_list_entries sf keypoint_offsets rest of
        Inl err \<Rightarrow> Inl err
      | Inr rest' \<Rightarrow> Inr (other # rest'))"

text \<open>
  \<^verbatim>\<open>_process_keypoints\<close> on a dict, one item: a dict entry goes through
  \<^verbatim>\<open>_apply_delta\<close>; a list entry of two or more elements is replaced when the part
  has a non-empty offset and both of its first two elements convert (one
  \<^verbatim>\<open>try\<close> block holds both conversions and the assignment).
\<close>

fun process_dict_item ::
  "(string \<Rightarrow> real option) \<Rightarrow> coord_map \<Rightarrow> string \<times> json \<Rightarrow> string \<times> json" where
  "process_dict_item sf keypoint_offsets (name, JObj entry) =
     (name, JObj (apply_delta sf keypoint_offsets entry (KStr name)))"
| "process_dict_item sf keypoint_offsets (name, JArr (e0 # e1 # rest)) =
     (case map_of keypoint_offsets (KStr name) of
        None \<Rightarrow> (name, JArr (e0 # e1 # rest))
      | Some delta \<Rightarrow>
          if delta = [] then (name, JArr (e0 # e1 # rest))
          else
            (case try_float sf e0 of
               None \<Rightarrow> (name, JArr (e0 # e1 # rest))
             | Some f0 \<Rightarrow>
                 (case try_float sf e1 of
                    None \<Rightarrow> (name, JArr (e0 # e1 # rest))
                  | Some f1 \<Rightarrow>
                      (name, JArr (JNum (f0 + delta_get delta ''x'')
                                   # JNum (f1 + delta_get delta ''y'') # rest)))))"
| "process_dict_item sf keypoint_offsets (name, other) = (name, other)"

fun process_keypoints ::
  "(string \<Rightarrow> real option) \<Rightarrow> coord_map \<Rightarrow> json \<Rightarrow> py_error + json" where
  "process_keypoints sf keypoint_offsets (JArr entries) =
     (case process_list_entries sf keypoint_offsets entries of
        Inl err \<Rightarrow> Inl err
      | Inr entries' \<Rightarrow> Inr (JArr entries'))"
| "process_keypoints sf keypoint_offsets (JObj items) =
     Inr (JObj (map (process_dict_item sf keypoint_offsets) items))"
| "process_keypoints sf keypoint_offsets other = Inr other"

text \<open>
  \<^verbatim>\<open>for candidate_key in (...): if candidate_key in d: _process_keypoints(d[candidate_key])\<close>
  on a person or on the payload itself; the container is changed where it stands.
\<close>

fun process_candidates ::
  "(string \<Rightarrow> real option) \<Rightarrow> coord_map \<Rightarrow> string list \<Rightarrow> dict \<Rightarrow> py_error + dict" where
  "process_candidates sf keypoint_offsets [] d = Inr d"
| "process_candidates sf keypoint_offsets (candidate_key # ks) d =
     (case map_of d candidate_key of
        None \<Rightarrow> process_candidates sf keypoint_offsets ks d
      | Some container \<Rightarrow>
          (case process_keypoints sf keypoint_offsets container of
             Inl err \<Rightarrow> Inl err
           | Inr container' \<Rightarrow>
               process_candidates sf keypoint_offsets ks
                 (AList.update candidate_key container' d)))"

fun process_persons ::
  "(string \<Rightarrow> real option) \<Rightarrow> coord_map \<Rightarrow> json list \<Rightarrow> py_error + json list" where
  "process_persons sf keypoint_offsets [] = Inr []"
| "process_persons sf keypoint_offsets (JObj person # rest) =
     (case process_candidates sf keypoint_offsets candidate_keys person of
        Inl err \<Rightarrow> Inl err
      | Inr person' \<Rightarrow>
          (case process_persons sf keypoint_offsets rest of
             Inl err \<Rightarrow> Inl err
           | Inr rest' \<Rightarrow> Inr (JObj person' # rest')))"
| "process_persons sf keypoint_offsets (other # rest) =
     (case process_persons sf keypoint_offsets rest of
        Inl err \<Rightarrow> Inl err
      | Inr rest' \<Rightarrow> Inr (other # rest'))"

text \<open>
  The key under which \<^verbatim>\<open>adjusted.get('persons') or adjusted.get('people')\<close> found
  its value.
\<close>

definition persons_key :: "dict \<Rightarrow> string" where
  "persons_key d = (if truthy (dict_get d ''persons'') then ''persons'' else ''people'')"

definition apply_keypoint_offsets_to_payload ::
  "(string \<Rightarrow> real option) \<Rightarrow> json \<Rightarrow> coord_map \<Rightarrow> py_error + json" where
  "apply_keypoint_offsets_to_payload sf payload keypoint_offsets =
     (case payload of
        JObj d \<Rightarrow>
          if keypoint_offsets = [] then Inr payload
          else
            (case py_or (dict_get d ''persons'') (dict_get d ''people'') of
               JArr persons \<Rightarrow>
                 (case process_persons sf keypoint_offsets persons of
                    Inl err \<Rightarrow> Inl err
                  | Inr persons' \<Rightarrow>
                      (case process_candidates sf keypoint_offsets candidate_keys
                              (AList.update (persons_key d) (JArr persons') d) of
                         Inl err \<Rightarrow> Inl err
                       | Inr adjusted \<Rightarrow> Inr (JObj adjusted)))
             | _ \<Rightarrow>
                 (case process_candidates sf keypoint_offsets candidate_keys d of
                    Inl err \<Rightarrow> Inl err
                  | Inr adjusted \<Rightarrow> Inr (JObj adjusted)))
      | _ \<Rightarrow> Inr payload)"

text \<open>
  What the specification says of one coordinate value: shifted by the offset, and left
  as it is when it is missing or does not convert to a float.
\<close>

definition shifted_value :: "(string \<Rightarrow> real option) \<Rightarrow> real \<Rightarrow> json \<Rightarrow> json" where
  "shifted_value sf dl v = (case try_float sf v of None \<Rightarrow> v | Some f \<Rightarrow> JNum (f + dl))"

text \<open>What \<^verbatim>\<open>_apply_delta\<close> makes of the value under \<open>position\<close>.\<close>

definition shifted_position :: "(string \<Rightarrow> real option) \<Rightarrow> coord \<Rightarrow> json \<Rightarrow> json" where
  "shifted_position sf delta v =
     (case v of JObj position \<Rightarrow> JObj (shift_axes sf delta position) | _ \<Rightarrow> v)"

text \<open>
  Specification predicates of the re-projector: a person of the list and an entry of a
  list container, before and after.
\<close>

definition person_processed :: "(string \<Rightarrow> real option) \<Rightarrow> coord_map \<Rightarrow> json \<Rightarrow> json \<Rightarrow> bool" where
  "person_processed sf offs p p' =
     (case p of
        JObj person \<Rightarrow>
          (case p' of
             JObj person' \<Rightarrow> process_candidates sf offs candidate_keys person = Inr person'
           | _ \<Rightarrow> False)
      | _ \<Rightarrow> p' = p)"

definition entry_processed :: "(string \<Rightarrow> real option) \<Rightarrow> coord_map \<Rightarrow> json \<Rightarrow> json \<Rightarrow> bool" where
  "entry_processed sf offs e e' =
     (case e of
        JObj entry \<Rightarrow>
          if truthy (reproject_entry_name entry)
          then (case hash_key (reproject_entry_name entry) of
                  Inl err \<Rightarrow> False
                | Inr k \<Rightarrow> e' = JObj (apply_delta sf offs entry k))
          else e' = e
      | _ \<Rightarrow> e' = e)"

definition name_hashable :: "json \<Rightarrow> bool" where
  "name_hashable e =
     (case e of
        JObj entry \<Rightarrow>
          if truthy (reproject_entry_name entry)
          then (case hash_key (reproject_entry_name entry) of
                  Inl err \<Rightarrow> False
                | Inr k \<Rightarrow> True)
          else True
      | _ \<Rightarrow> True)"

text \<open>
  The reading of a sequence entry in which each of the first two elements is shifted on
  its own.
\<close>

fun claimed_sequence_entry :: "(string \<Rightarrow> real option) \<Rightarrow> coord \<Rightarrow> json list \<Rightarrow> json list" where
  "claimed_sequence_entry sf delta (e0 # e1 # rest) =
     shifted_value sf (delta_get delta ''x'') e0
       # shifted_value sf (delta_get delta ''y'') e1 # rest"
| "claimed_sequence_entry sf delta short = short"

text \<open>
  Specification predicates for the identity calibration: an offset map with every
  delta zero; two points that the angle extractor cannot tell apart (same confidence,
  same float coordinates); two lookups with the same names and such points.
\<close>

definition zero_offsets :: "coord_map \<Rightarrow> bool" where
  "zero_offsets offs = list_all (\<lambda>(k, delta). list_all (\<lambda>(axis, v). v = 0) delta) offs"

definition point_same :: "(string \<Rightarrow> real option) \<Rightarrow> dict \<Rightarrow> dict \<Rightarrow> bool" where
  "point_same sf p p' =
     (confidence sf (Some p') = confidence sf (Some p)
      \<and> try_float sf (dict_get p' ''x'') = try_float sf (dict_get p ''x'')
      \<and> try_float sf (dict_get p' ''y'') = try_float sf (dict_get p ''y''))"

definition lookup_same :: "(string \<Rightarrow> real option) \<Rightarrow> lookup \<Rightarrow> lookup \<Rightarrow> bool" where
  "lookup_same sf l l' = list_all2 (\<lambda>kp kp'. fst kp' = fst kp \<and> point_same sf (snd kp) (snd kp')) l l'"

subsection \<open>The re-projector on a store of objects\<close>

text \<open>
  To say that the re-projector leaves its argument alone, lists and dicts are objects in
  a store and values refer to them by address, as in Python. \<^verbatim>\<open>json.load\<close> and
  \<^verbatim>\<open>copy.deepcopy\<close> build a tree bottom-up at fresh addresses; an assignment
  \<^verbatim>\<open>d[k] = v\<close> overwrites the object at the address of \<open>d\<close>.
\<close>

datatype pval = VNone | VBool bool | VNum real | VStr string | VRef nat

datatype pobj = OList "pval list" | ODict "(string \<times> pval) list"

type_synonym store = "pobj list"

definition obj_at :: "store \<Rightarrow> nat \<Rightarrow> pobj option" where
  "obj_at h a = (if a < length h then Some (h ! a) else None)"

fun alloc :: "json \<Rightarrow> store \<Rightarrow> pval \<times> store"
and alloc_list :: "json list \<Rightarrow> store \<Rightarrow> pval list \<times> store"
and alloc_items :: "(string \<times> json) list \<Rightarrow> store \<Rightarrow> (string \<times> pval) list \<times> store"
where
  "alloc JNull h = (VNone, h)"
| "alloc (JBool b) h = (VBool b, h)"
| "alloc (JNum r) h = (VNum r, h)"
| "alloc (JStr s) h = (VStr s, h)"
| "alloc (JArr xs) h =
     (case alloc_list xs h of (vs, h1) \<Rightarrow> (VRef (length h1), h1 @ [OList vs]))"
| "alloc (JObj kvs) h =
     (case alloc_items kvs h of (its, h1) \<Rightarrow> (VRef (length h1), h1 @ [ODict its]))"
| "alloc_list [] h = ([], h)"
| "alloc_list (x # xs) h =
     (case alloc x h of (v, h1) \<Rightarrow>
        (case alloc_list xs h1 of (vs, h2) \<Rightarrow> (v # vs, h2)))"
| "alloc_items [] h = ([], h)"
| "alloc_items ((k, x) # kvs) h =
     (case alloc x h of (v, h1) \<Rightarrow>
        (case alloc_items kvs h1 of (its, h2) \<Rightarrow> ((k, v) # its, h2)))"

text \<open>
  The tree a value denotes, following at most \<open>fuel\<close> references in a row; \<open>None\<close>
  when the fuel runs out or a reference dangles. A store of \<open>n\<close> objects holds no
  tree deeper than \<open>n\<close>.
\<close>

fun read_json :: "store \<Rightarrow> nat \<Rightarrow> pval \<Rightarrow> json option" where
  "read_json h fuel VNone = Some JNull"
| "read_json h fuel (VBool x) = Some (JBool x)"
| "read_json h fuel (VNum r) = Some (JNum r)"
| "read_json h fuel (VStr s) = Some (JStr s)"
| "read_json h 0 (VRef a) = None"
| "read_json h (Suc fuel) (VRef a) =
     (case obj_at h a of
        None \<Rightarrow> None
      | Some (OList vs) \<Rightarrow> map_option JArr (those (map (read_json h fuel) vs))
      | Some (ODict its) \<Rightarrow>
          map_option JObj
            (those (map (\<lambda>kv. map_option (Pair (fst kv)) (read_json h fuel (snd kv))) its)))"

text \<open>Reading values in the store: \<^verbatim>\<open>float\<close> under \<^verbatim>\<open>try\<close>, truthiness, \<^verbatim>\<open>get\<close>, hashing.\<close>

fun pfloat :: "(string \<Rightarrow> real option) \<Rightarrow> pval \<Rightarrow> real option" where
  "pfloat sf VNone = None"
| "pfloat sf (VBool b) = Some (if b then 1 else 0)"
| "pfloat sf (VNum r) = Some r"
| "pfloat sf (VStr s) = sf s"
| "pfloat sf (VRef a) = None"

fun ptruthy :: "store \<Rightarrow> pval \<Rightarrow> bool" where
  "ptruthy h VNone = False"
| "ptruthy h (VBool b) = b"
| "ptruthy h (VNum r) = (r \<noteq> 0)"
| "ptruthy h (VStr s) = (s \<noteq> [])"
| "ptruthy h (VRef a) =
     (case obj_at h a of Some (OList vs) \<Rightarrow> vs \<noteq> [] | Some (ODict its) \<Rightarrow> its \<noteq> [] | None \<Rightarrow> True)"

definition por :: "store \<Rightarrow> pval \<Rightarrow> pval \<Rightarrow> pval" where
  "por h a b = (if ptruthy h a then a else b)"

definition pget :: "(string \<times> pval) list \<Rightarrow> string \<Rightarrow> pval" where
  "pget its k = (case map_of its k of None \<Rightarrow> VNone | Some v \<Rightarrow> v)"

fun phash :: "pval \<Rightarrow> py_error + pykey" where
  "phash VNone = Inr KNone"
| "phash (VBool b) = Inr (KNum (if b then 1 else 0))"
| "phash (VNum r) = Inr (KNum r)"
| "phash (VStr s) = Inr (KStr s)"
| "phash (VRef a) = Inl TypeError"

definition st_shift_axis ::
  "(string \<Rightarrow> real option) \<Rightarrow> coord \<Rightarrow> string \<Rightarrow> (string \<times> pval) list \<Rightarrow> (string \<times> pval) list" where
  "st_shift_axis sf delta axis its =
     (case map_of its axis of
        None \<Rightarrow> its
      | Some v \<Rightarrow>
          if v = VNone then its
          else (case pfloat sf v of
                  None \<Rightarrow> its
                | Some f \<Rightarrow> AList.update axis (VNum (f + delta_get delta axis)) its))"

definition st_shift_axes ::
  "(string \<Rightarrow> real option) \<Rightarrow> coord \<Rightarrow> (string \<times> pval) list \<Rightarrow> (string \<times> pval) list" where
  "st_shift_axes sf delta its = st_shift_axis sf delta ''y'' (st_shift_axis sf delta ''x'' its)"

text \<open>
  \<^verbatim>\<open>_apply_delta(entry, name)\<close>: the entry's dict is overwritten where it lies, and
  then the dict its \<open>position\<close> refers to.
\<close>

definition st_apply_delta ::
  "(string \<Rightarrow> real option) \<Rightarrow> coord_map \<Rightarrow> store \<Rightarrow> pval \<Rightarrow> pykey \<Rightarrow> store" where
  "st_apply_delta sf keypoint_offsets h entry k =
     (case map_of keypoint_offsets k of
        None \<Rightarrow> h
      | Some delta \<Rightarrow>
          if delta = [] then h
          else
            (case entry of
               VRef ea \<Rightarrow>
                 (case obj_at h ea of
                    Some (ODict its) \<Rightarrow>
                      (let its1 = st_shift_axes sf delta its;
                           h1 = h[ea := ODict its1]
                       in (case pget its1 ''position'' of
                             VRef pa \<Rightarrow>
                               (case obj_at h1 pa of
                                  Some (ODict position) \<Rightarrow>
                                    if position \<noteq> []
                                    then h1[pa := ODict (st_shift_axes sf delta position)]
                                    else h1
                                | _ \<Rightarrow> h1)
                           | _ \<Rightarrow> h1))
                  | _ \<Rightarrow> h)
             | _ \<Rightarrow> h))"

definition st_entry_name :: "store \<Rightarrow> (string \<times> pval) list \<Rightarrow> pval" where
  "st_entry_name h entry =
     por h (por h (por h (pget entry ''name'') (pget entry ''part_name''))
                  (pget entry ''part'')) (pget entry ''id'')"

fun st_process_list_entries ::
  "(string \<Rightarrow> real option) \<Rightarrow> coord_map \<Rightarrow> store \<Rightarrow> pval list \<Rightarrow> py_error + store" where
  "st_process_list_entries sf keypoint_offsets h [] = Inr h"
| "st_process_list_entries sf keypoint_offsets h (VRef ea # rest) =
     (case obj_at h ea of
        Some (ODict entry) \<Rightarrow>
          (let name = st_entry_name h entry in
           if ptruthy h name then
             (case phash name of
                Inl err \<Rightarrow> Inl err
              | Inr k \<Rightarrow>
                  st_process_list_entries sf keypoint_offsets
                    (st_apply_delta sf keypoint_offsets h (VRef ea) k) rest)
           else st_process_list_entries sf keypoint_offsets h rest)
      | _ \<Rightarrow> st_process_list_entries sf keypoint_offsets h rest)"
| "st_process_list_entries sf keypoint_offsets h (other # rest) =
     st_process_list_entries sf keypoint_offsets h rest"

text \<open>
  A list entry of a dict container: \<^verbatim>\<open>new_entry = list(entry)\<close> is a new object,
  its first two elements are assigned one after the other, and only then
  \<^verbatim>\<open>container[name] = new_entry\<close> overwrites the container.
\<close>

definition st_replace_sequence ::
  "(string \<Rightarrow> real option) \<Rightarrow> coord \<Rightarrow> store \<Rightarrow> nat \<Rightarrow> string \<Rightarrow> pval list \<Rightarrow> store" where
  "st_replace_sequence sf delta h ca name xs =
     (let na = length h; h1 = h @ [OList xs] in
      case pfloat sf (xs ! 0) of
        None \<Rightarrow> h1
      | Some f0 \<Rightarrow>
          (let xs1 = xs[0 := VNum (f0 + delta_get delta ''x'')];
               h2 = h1[na := OList xs1]
           in case pfloat sf (xs1 ! 1) of
                None \<Rightarrow> h2
              | Some f1 \<Rightarrow>
                  (let h3 = h2[na := OList (xs1[1 := VNum (f1 + delta_get delta ''y'')])]
                   in case obj_at h3 ca of
                        Some (ODict container) \<Rightarrow>
                          h3[ca := ODict (AList.update name (VRef na) container)]
                      | _ \<Rightarrow> h3)))"

fun st_process_dict_items ::
  "(string \<Rightarrow> real option) \<Rightarrow> coord_map \<Rightarrow> store \<Rightarrow> nat \<Rightarrow> (string \<times> pval) list \<Rightarrow> store" where
  "st_process_dict_items sf keypoint_offsets h ca [] = h"
| "st_process_dict_items sf keypoint_offsets h ca ((name, VRef ea) # rest) =
     (case obj_at h ea of
        Some (ODict entry) \<Rightarrow>
          st_process_dict_items sf keypoint_offsets
            (st_apply_delta sf keypoint_offsets h (VRef ea) (KStr name)) ca rest
      | Some (OList xs) \<Rightarrow>
          if length xs \<ge> 2 then
            (case map_of keypoint_offsets (KStr name) of
               None \<Rightarrow> st_process_dict_items sf keypoint_offsets h ca rest
             | Some delta \<Rightarrow>
                 if delta = [] then st_process_dict_items sf keypoint_offsets h ca rest
                 else st_process_dict_items sf keypoint_offsets
                        (st_replace_sequence sf delta h ca name xs) ca rest)
          else st_process_dict_items sf keypoint_offsets h ca rest
      | None \<Rightarrow> st_process_dict_items sf keypoint_offsets h ca rest)"
| "st_process_dict_items sf keypoint_offsets h ca ((name, other) # rest) =
     st_process_dict_items sf keypoint_offsets h ca rest"

definition st_process_keypoints ::
  "(string \<Rightarrow> real option) \<Rightarrow> coord_map \<Rightarrow> store \<Rightarrow> pval \<Rightarrow> py_error + store" where
  "st_process_keypoints sf keypoint_offsets h container =
     (case container of
        VRef ca \<Rightarrow>
          (case obj_at h ca of
             Some (OList entries) \<Rightarrow> st_process_list_entries sf keypoint_offsets h entries
           | Some (ODict items) \<Rightarrow> Inr (st_process_dict_items sf keypoint_offsets h ca items)
           | None \<Rightarrow> Inr h)
      | _ \<Rightarrow> Inr h)"

fun st_process_candidates ::
  "(string \<Rightarrow> real option) \<Rightarrow> coord_map \<Rightarrow> store \<Rightarrow> nat \<Rightarrow> string list \<Rightarrow> py_error + store" where
  "st_process_candidates sf keypoint_offsets h da [] = Inr h"
| "st_process_candidates sf keypoint_offsets h da (candidate_key # ks) =
     (case obj_at h da of
        Some (ODict d) \<Rightarrow>
          (case map_of d candidate_key of
             None \<Rightarrow> st_process_candidates sf keypoint_offsets h da ks
           | Some container \<Rightarrow>
               (case st_process_keypoints sf keypoint_offsets h container of
                  Inl err \<Rightarrow> Inl err
                | Inr h1 \<Rightarrow> st_process_candidates sf keypoint_offsets h1 da ks))
      | _ \<Rightarrow> st_process_candidates sf keypoint_offsets h da ks)"

fun st_process_persons ::
  "(string \<Rightarrow> real option) \<Rightarrow> coord_map \<Rightarrow> store \<Rightarrow> pval list \<Rightarrow> py_error + store" where
  "st_process_persons sf keypoint_offsets h [] = Inr h"
| "st_process_persons sf keypoint_offsets h (VRef pa # rest) =
     (case obj_at h pa of
        Some (ODict person) \<Rightarrow>
          (case st_process_candidates sf keypoint_offsets h pa candidate_keys of
             Inl err \<Rightarrow> Inl err
           | Inr h1 \<Rightarrow> st_process_persons sf keypoint_offsets h1 rest)
      | _ \<Rightarrow> st_process_persons sf keypoint_offsets h rest)"
| "st_process_persons sf keypoint_offsets h (other # rest) =
     st_process_persons sf keypoint_offsets h rest"

text \<open>The part of the function after the copy has been made, on the copy at \<open>aa\<close>.\<close>

definition st_adjust ::
  "(string \<Rightarrow> real option) \<Rightarrow> coord_map \<Rightarrow> store \<Rightarrow> nat \<Rightarrow> py_error + store" where
  "st_adjust sf keypoint_offsets h aa =
     (case obj_at h aa of
        Some (ODict adjusted) \<Rightarrow>
          (case por h (pget adjusted ''persons'') (pget adjusted ''people'') of
             VRef pl \<Rightarrow>
               (case obj_at h pl of
                  Some (OList persons) \<Rightarrow>
                    (case st_process_persons sf keypoint_offsets h persons of
                       Inl err \<Rightarrow> Inl err
                     | Inr h1 \<Rightarrow> st_process_candidates sf keypoint_offsets h1 aa candidate_keys)
                | _ \<Rightarrow> st_process_candidates sf keypoint_offsets h aa candidate_keys)
           | _ \<Rightarrow> st_process_candidates sf keypoint_offsets h aa candidate_keys)
      | _ \<Rightarrow> Inr h)"

text \<open>
  \<^verbatim>\<open>apply_keypoint_offsets_to_payload\<close> on the store: the result value and the new
  store, or the exception. \<^verbatim>\<open>copy.deepcopy(payload)\<close> allocates anew the tree that
  the payload denotes; \<open>None\<close> when the payload is not such a tree.
\<close>

definition st_apply_keypoint_offsets_to_payload ::
  "(string \<Rightarrow> real option) \<Rightarrow> store \<Rightarrow> pval \<Rightarrow> coord_map \<Rightarrow> (py_error + pval \<times> store) option" where
  "st_apply_keypoint_offsets_to_payload sf h payload keypoint_offsets =
     (case payload of
        VRef a \<Rightarrow>
          (case obj_at h a of
             Some (ODict d) \<Rightarrow>
               (case read_json h (length h) payload of
                  None \<Rightarrow> None
                | Some tree \<Rightarrow>
                    (case alloc tree h of
                       (VRef aa, h1) \<Rightarrow>
                         if keypoint_offsets = [] then Some (Inr (VRef aa, h1))
                         else (case st_adjust sf keypoint_offsets h1 aa of
                                 Inl err \<Rightarrow> Some (Inl err)
                               | Inr h2 \<Rightarrow> Some (Inr (VRef aa, h2)))
                     | (adjusted, h1) \<Rightarrow> Some (Inr (adjusted, h1))))
           | _ \<Rightarrow> Some (Inr (payload, h)))
      | _ \<Rightarrow> Some (Inr (payload, h)))"

text \<open>
  Where references point: a value, an object, and every object of the store from
  address \<open>lo\<close> on refer only to addresses from \<open>lo\<close> on (and inside the store).
  \<open>keeps n h h'\<close>: the store \<open>h'\<close> has every object of \<open>h\<close> below \<open>n\<close> as it was.
\<close>

definition val_in :: "nat \<Rightarrow> nat \<Rightarrow> pval \<Rightarrow> bool" where
  "val_in lo hi v = (case v of VRef a \<Rightarrow> lo \<le> a \<and> a < hi | _ \<Rightarrow> True)"

definition obj_in :: "nat \<Rightarrow> nat \<Rightarrow> pobj \<Rightarrow> bool" where
  "obj_in lo hi ob =
     (case ob of
        OList vs \<Rightarrow> list_all (val_in lo hi) vs
      | ODict its \<Rightarrow> list_all (\<lambda>kv. val_in lo hi (snd kv)) its)"

definition store_closed :: "nat \<Rightarrow> store \<Rightarrow> bool" where
  "store_closed lo h = (\<forall>a. lo \<le> a \<and> a < length h \<longrightarrow> obj_in lo (length h) (h ! a))"

definition keeps :: "nat \<Rightarrow> store \<Rightarrow> store \<Rightarrow> bool" where
  "keeps n h h' = (length h \<le> length h' \<and> (\<forall>a. a < n \<longrightarrow> h' ! a = h ! a))"

subsection \<open>Training corpus preparer, one capture\<close>

text \<open>
  Lines 591 to 596 of \<^verbatim>\<open>prepare_adjusted_training_data\<close> (and the same lines of
  \<^verbatim>\<open>prepare_training_data\<close>): the adjusted angles of a capture whose current
  angles were extracted.
\<close>

definition adjusted_angles_of_capture ::
  "(string \<Rightarrow> real option) \<Rightarrow> json \<Rightarrow> coord_map \<Rightarrow> angles \<Rightarrow> angles \<Rightarrow> py_error + angles" where
  "adjusted_angles_of_capture sf raw_payload keypoint_coordinate_offsets current_angles offsets =
     (case apply_keypoint_offsets_to_payload sf raw_payload keypoint_coordinate_offsets of
        Inl err \<Rightarrow> Inl err
      | Inr adjusted_payload \<Rightarrow>
          (case get_angles_from_payload sf adjusted_payload of
             Inl err \<Rightarrow> Inl err
           | Inr (Some adjusted_payload_angles) \<Rightarrow> Inr adjusted_payload_angles
           | Inr None \<Rightarrow> Inr (\<lambda>k. current_angles k + offsets k)))"

definition PPD_adjusted_angles_of_capture ::
  "(string \<Rightarrow> real option) \<Rightarrow> json \<Rightarrow> coord_map \<Rightarrow> angles \<Rightarrow> angles \<Rightarrow> py_error + angles" where
  "PPD_adjusted_angles_of_capture sf raw_payload keypoint_coordinate_offsets current_angles offsets =
     (case apply_keypoint_offsets_to_payload sf raw_payload keypoint_coordinate_offsets of
        Inl err \<Rightarrow> Inl err
      | Inr adjusted_payload \<Rightarrow>
          (case PPD_get_angles_from_payload sf adjusted_payload of
             Inl err \<Rightarrow> Inl err
           | Inr (Some adjusted_payload_angles) \<Rightarrow> Inr adjusted_payload_angles
           | Inr None \<Rightarrow> Inr (\<lambda>k. current_angles k + offsets k)))"

subsection \<open>Example inputs\<close>

text \<open>Concrete payloads, lookups and file systems at which the theorems below are run.\<close>

definition no_numeric_strings :: "string \<Rightarrow> real option" where
  "no_numeric_strings s = None"

definition angles_payload :: "real \<Rightarrow> real \<Rightarrow> real \<Rightarrow> json" where
  "angles_payload n b l =
     JObj [(''angles'', JObj [(''neck'', JNum n), (''back'', JNum b), (''legs'', JNum l)])]"

definition reference_angles_payload :: json where
  "reference_angles_payload =
     JObj [(''reference_angles'',
            JObj [(''neck'', JNum 150), (''back'', JNum 100), (''legs'', JNum 120)])]"

definition string_angle_payload :: json where
  "string_angle_payload = JObj [(''neck'', JStr ''abc''), (''back'', JNum 1), (''legs'', JNum 2)]"

definition list_name_payload :: json where
  "list_name_payload = JObj [(''keypoints'', JArr [JObj [(''name'', JArr [JStr ''a''])]])]"

definition example_files :: files where
  "example_files path =
     (if path = ''base.json'' then Parsed (angles_payload 150 100 120)
      else if path = ''user.json'' then Parsed (angles_payload 140 105 120)
      else if path = ''broken.json'' then Unparsable
      else Missing)"

text \<open>
  A file system with a reference file whose \<open>neck\<close> is the string \<^verbatim>\<open>"abc"\<close> and one
  whose only keypoint has a list for its name.
\<close>

definition faulty_files :: files where
  "faulty_files path =
     (if path = ''base.json'' then Parsed (angles_payload 150 100 120)
      else if path = ''text.json'' then Parsed string_angle_payload
      else if path = ''list.json'' then Parsed list_name_payload
      else Missing)"






definition nose_payload :: json where
  "nose_payload = JObj [(''keypoints'', JObj [(''nose'', JArr [JNum 1, JStr ''a'', JNum (9 / 10)])])]"

definition nose_offsets :: coord_map where
  "nose_offsets = [(KStr ''nose'', [(''x'', 5), (''y'', 5)])]"

definition claimed_nose_payload :: json where
  "claimed_nose_payload =
     JObj [(''keypoints'',
            JObj [(''nose'', JArr (claimed_sequence_entry no_numeric_strings [(''x'', 5), (''y'', 5)]
                                     [JNum 1, JStr ''a'', JNum (9 / 10)]))])]"

definition left_ear_entry :: dict where
  "left_ear_entry =
     [(''x'', JNum 1), (''y'', JStr ''n/a''), (''confidence'', JNum (9 / 10)),
      (''position'', JObj [(''x'', JNum 2), (''y'', JNum 3)])]"

definition left_ear_list_entry :: dict where
  "left_ear_list_entry =
     [(''name'', JStr ''left_ear''), (''x'', JNum 10), (''position'', JObj [(''y'', JNum 4)])]"

definition capture_payload :: json where
  "capture_payload =
     JObj [(''keypoints'',
            JObj [(''left_ear'', JObj left_ear_entry),
                  (''left_hip'', JArr [JNum 1, JNum 2, JNum (9 / 10)])]),
           (''people'', JArr [JObj [(''pose_keypoints'', JArr [JObj left_ear_list_entry])]]),
           (''meta'', JStr ''m'')]"

definition capture_offsets :: coord_map where
  "capture_offsets =
     [(KStr ''left_ear'', [(''x'', 5), (''y'', - 1)]), (KStr ''left_hip'', [(''x'', 2)])]"

definition adjusted_capture_payload :: json where
  "adjusted_capture_payload =
     JObj [(''keypoints'',
            JObj [(''left_ear'',
                   JObj [(''x'', JNum 6), (''y'', JStr ''n/a''), (''confidence'', JNum (9 / 10)),
                         (''position'', JObj [(''x'', JNum 7), (''y'', JNum 2)])]),
                  (''left_hip'', JArr [JNum 3, JNum 2, JNum (9 / 10)])]),
           (''people'',
            JArr [JObj [(''pose_keypoints'',
                         JArr [JObj [(''name'', JStr ''left_ear''), (''x'', JNum 15),
                                     (''position'', JObj [(''y'', JNum 3)])]])]]),
           (''meta'', JStr ''m'')]"

definition side_payload :: json where
  "side_payload =
     JObj [(''keypoints'',
            JObj [(''left_ear'', JArr [JNum 0, JNum 0, JNum (9 / 10)]),
                  (''left_shoulder'', JArr [JNum 0, JNum 2, JNum (9 / 10)]),
                  (''left_hip'', JArr [JNum 0, JNum 5, JNum (9 / 10)]),
                  (''left_knee'', JArr [JNum 3, JNum 5, JNum (9 / 10)]),
                  (''left_ankle'', JArr [JNum 3, JNum 8, JNum (9 / 10)])])]"

definition side_coordinates :: coord_map where
  "side_coordinates =
     [(KStr ''left_ear'', [(''x'', 0), (''y'', 0)]),
      (KStr ''left_shoulder'', [(''x'', 0), (''y'', 2)]),
      (KStr ''left_hip'', [(''x'', 0), (''y'', 5)]),
      (KStr ''left_knee'', [(''x'', 3), (''y'', 5)]),
      (KStr ''left_ankle'', [(''x'', 3), (''y'', 8)])]"

definition side_zero_offsets :: coord_map where
  "side_zero_offsets =
     [(KStr ''left_ear'', [(''x'', 0), (''y'', 0)]),
      (KStr ''left_shoulder'', [(''x'', 0), (''y'', 0)]),
      (KStr ''left_hip'', [(''x'', 0), (''y'', 0)]),
      (KStr ''left_knee'', [(''x'', 0), (''y'', 0)]),
      (KStr ''left_ankle'', [(''x'', 0), (''y'', 0)])]"

definition leaning_payload :: json where
  "leaning_payload =
     JObj [(''keypoints'',
            JObj [(''left_ear'', JArr [JNum 1, JNum 0, JNum (9 / 10)]),
                  (''left_shoulder'', JArr [JNum 0, JNum 2, JNum (8 / 10)]),
                  (''left_hip'', JArr [JNum 1, JNum 5, JNum (9 / 10)]),
                  (''left_knee'', JArr [JNum 4, JNum 5, JNum (9 / 10)]),
                  (''left_ankle'', JArr [JNum 3, JNum 8, JNum (9 / 10)])])]"

definition leaning_angles :: angles where
  "leaning_angles =
     mk_angles (calculate_angle (1, 5) (0, 2) (1, 0))
               (calculate_angle (4, 5) (1, 5) (0, 2))
               (calculate_angle (3, 8) (4, 5) (1, 5))"

definition keypoint_files :: files where
  "keypoint_files path =
     (if path = ''base_kp.json'' \<or> path = ''user_kp.json'' then Parsed side_payload
      else Missing)"

definition side_angles :: angles where
  "side_angles =
     mk_angles (calculate_angle (0, 5) (0, 2) (0, 0))
               (calculate_angle (3, 5) (0, 5) (0, 2))
               (calculate_angle (3, 8) (3, 5) (0, 5))"

text \<open>
  The capture above as \<^verbatim>\<open>json.load\<close> lays it out in an empty store (the payload is
  the object at address 9), and the store after the re-projector has run on it with the
  offsets above (the result is the object at address 19; the list at address 12 is the
  copied \<open>left_hip\<close> entry that \<^verbatim>\<open>list(entry)\<close> has replaced).
\<close>

definition capture_store :: store where
  "capture_store =
     [ODict [(''x'', VNum 2), (''y'', VNum 3)],
      ODict [(''x'', VNum 1), (''y'', VStr ''n/a''), (''confidence'', VNum (9 / 10)),
             (''position'', VRef 0)],
      OList [VNum 1, VNum 2, VNum (9 / 10)],
      ODict [(''left_ear'', VRef 1), (''left_hip'', VRef 2)],
      ODict [(''y'', VNum 4)],
      ODict [(''name'', VStr ''left_ear''), (''x'', VNum 10), (''position'', VRef 4)],
      OList [VRef 5],
      ODict [(''pose_keypoints'', VRef 6)],
      OList [VRef 7],
      ODict [(''keypoints'', VRef 3), (''people'', VRef 8), (''meta'', VStr ''m'')]]"

definition adjusted_capture_store :: store where
  "adjusted_capture_store =
     capture_store @
     [ODict [(''x'', VNum 7), (''y'', VNum 2)],
      ODict [(''x'', VNum 6), (''y'', VStr ''n/a''), (''confidence'', VNum (9 / 10)),
             (''position'', VRef 10)],
      OList [VNum 1, VNum 2, VNum (9 / 10)],
      ODict [(''left_ear'', VRef 11), (''left_hip'', VRef 20)],
      ODict [(''y'', VNum 3)],
      ODict [(''name'', VStr ''left_ear''), (''x'', VNum 15), (''position'', VRef 14)],
      OList [VRef 15],
      ODict [(''pose_keypoints'', VRef 16)],
      OList [VRef 17],
      ODict [(''keypoints'', VRef 13), (''people'', VRef 18), (''meta'', VStr ''m'')],
      OList [VNum 3, VNum 2, VNum (9 / 10)]]"

section \<open>Properties\<close>

subsection \<open>Rule classifier\<close>

lemma tolerance_ten: "POSTURE_TOLERANCE r = 10"
  by (cases r) (simp_all add: POSTURE_TOLERANCE_def)

text \<open>
  Claim C1. For every angle triple \<open>a\<close> and personal triple \<open>p\<close>, an axis is \<open>GOOD\<close>
  exactly when its angle lies in the closed band \<open>[p r - 10, p r + 10]\<close> (both in the
  classifier's state and in the status of the manual check), and the label is the entry
  of the eight-entry table for the three states. With personal angles (150, 100, 120)
  and observed angles (135, 100, 120) the label is "Neck Misalignment" and the neck
  status is "INCORRECT (Too Bent/Forward)".
\<close>

theorem C1_rule_classifier:
  fixes a p :: angles
  defines "good \<equiv> \<lambda>r. p r - 10 \<le> a r \<and> a r \<le> p r + 10"
  shows "(axis_state a (build_manual_rules p) r = ''GOOD'') = good r
       \<and> (axis_state a (build_manual_rules p) r = ''BAD'') = (\<not> good r)
       \<and> (row_status (analysis_row_of a (build_manual_rules p) r) = ''GOOD'') = good r
       \<and> classify_posture_state a (build_manual_rules p) =
           (if good Neck
            then (if good Back
                  then (if good Legs then ''Aligned Posture'' else ''Legs Misalignment'')
                  else (if good Legs then ''Back Misalignment'' else ''Back & Legs Misalignment''))
            else (if good Back
                  then (if good Legs then ''Neck Misalignment'' else ''Neck & Legs Misalignment'')
                  else (if good Legs then ''Neck & Back Misalignment''
                        else ''Full Body Misalignment'')))
       \<and> summary_label (run_manual_posture_check (mk_angles 135 100 120) (mk_angles 150 100 120))
            = ''Neck Misalignment''
       \<and> map (\<lambda>row. (row_region row, row_status row))
            (summary_details
               (run_manual_posture_check (mk_angles 135 100 120) (mk_angles 150 100 120)))
            = [(Neck, ''INCORRECT (Too Bent/Forward)''), (Back, ''GOOD''), (Legs, ''GOOD'')]"
proof -
  have st: "axis_state a (build_manual_rules p) r = (if good r then ''GOOD'' else ''BAD'')" for r
    by (simp add: axis_state_def build_manual_rules_def tolerance_ten good_def)
  have row: "(row_status (analysis_row_of a (build_manual_rules p) r) = ''GOOD'') = good r"
    by (auto simp add: analysis_row_of_def build_manual_rules_def tolerance_ten good_def Let_def)
  have cls: "classify_posture_state a (build_manual_rules p) =
           (if good Neck
            then (if good Back
                  then (if good Legs then ''Aligned Posture'' else ''Legs Misalignment'')
                  else (if good Legs then ''Back Misalignment'' else ''Back & Legs Misalignment''))
            else (if good Back
                  then (if good Legs then ''Neck Misalignment'' else ''Neck & Legs Misalignment'')
                  else (if good Legs then ''Neck & Back Misalignment''
                        else ''Full Body Misalignment'')))"
    unfolding classify_posture_state_def st Let_def posture_states_def by simp
  have lab: "summary_label
      (run_manual_posture_check (mk_angles 135 100 120) (mk_angles 150 100 120))
            = ''Neck Misalignment''"
    by (simp add: run_manual_posture_check_def classify_posture_state_def axis_state_def
        posture_states_def build_manual_rules_def mk_angles_def tolerance_ten Let_def)
  have det: "map (\<lambda>row. (row_region row, row_status row))
            (summary_details
               (run_manual_posture_check (mk_angles 135 100 120) (mk_angles 150 100 120)))
            = [(Neck, ''INCORRECT (Too Bent/Forward)''), (Back, ''GOOD''), (Legs, ''GOOD'')]"
    by (simp add: run_manual_posture_check_def analysis_row_of_def regions_def
        build_manual_rules_def mk_angles_def tolerance_ten Let_def)
  show ?thesis using st row cls lab det by simp
qed

text \<open>
  Claim C10. For every angle triple and every rules mapping, the state tuple computed by
  \<open>classify_posture_state\<close> is a key of the table, so the label is one of the eight
  named labels and never "Unknown". The method of \<open>PersonalizedPostureDetector\<close> is the
  same code.
\<close>

theorem C10_never_unknown:
  "classify_posture_state a rls \<noteq> ''Unknown''
   \<and> classify_posture_state a rls \<in> snd ` set posture_states
   \<and> length posture_states = 8
   \<and> map_of posture_states
        (axis_state a rls Neck, axis_state a rls Back, axis_state a rls Legs) \<noteq> None"
  unfolding classify_posture_state_def axis_state_def posture_states_def Let_def
  by simp

subsection \<open>Score\<close>

lemma worst_diff_pos: "0 < worst_diff r x"
  by (cases r) (auto simp add: worst_diff_def ANGLE_LIMITS_def Let_def)

lemma weight_pos: "0 < ANGLE_WEIGHTS r"
  by (cases r) (simp_all add: ANGLE_WEIGHTS_def)

lemma max_deviation_pos: "0 < compute_manual_max_deviation p"
proof -
  have "0 < ANGLE_WEIGHTS r * (worst_diff r (p r))\<^sup>2" for r
    using worst_diff_pos[of r "p r"] weight_pos[of r] by simp
  from this[of Neck] this[of Back] this[of Legs] show ?thesis
    by (simp add: compute_manual_max_deviation_def regions_def)
qed

lemma weighted_deviation_self: "weighted_deviation p p = 0"
  by (simp add: weighted_deviation_def regions_def)

lemma weighted_deviation_explicit:
  "weighted_deviation c p =
     1 * (c Neck - p Neck)\<^sup>2 + 15 / 10 * (c Back - p Back)\<^sup>2 + 5 / 10 * (c Legs - p Legs)\<^sup>2"
  by (simp add: weighted_deviation_def regions_def ANGLE_WEIGHTS_def)

lemma max_deviation_example:
  "compute_manual_max_deviation (mk_angles 150 100 120) = 48811327 / 10000"
  by (simp add: compute_manual_max_deviation_def regions_def worst_diff_def ANGLE_LIMITS_def
      ANGLE_WEIGHTS_def mk_angles_def Let_def power2_eq_square)

text \<open>
  Claim C2. With \<open>max_threshold = compute_manual_max_deviation personal\<close>, which is
  always positive, the score lies in \<open>[0, 100]\<close> for every current and personal triple,
  and is exactly 100 when the current triple is the personal one; it is 100 times one
  minus the quotient of the weighted squared deviation
  \<open>1.0 (c\<^sub>n - p\<^sub>n)\<^sup>2 + 1.5 (c\<^sub>b - p\<^sub>b)\<^sup>2 + 0.5 (c\<^sub>l - p\<^sub>l)\<^sup>2\<close> by the threshold, clamped to
  \<open>[0, 100]\<close>. With \<open>max_threshold = 0\<close> the score is 100 when that weighted squared
  deviation is at most \<open>1e-6\<close> and 0 otherwise: 0 for the current triple (0, 0, 0) against
  the personal triple (100, 100, 100), and 100 for a current triple that is the personal
  one. For the personal triple (150, 100, 120) the threshold is 4881.1327.
\<close>

theorem C2_score:
  "0 \<le> calculate_manual_score c p (compute_manual_max_deviation p)
   \<and> calculate_manual_score c p (compute_manual_max_deviation p) \<le> 100
   \<and> calculate_manual_score p p (compute_manual_max_deviation p) = 100
   \<and> calculate_manual_score c p 0 =
       (if 1 * (c Neck - p Neck)\<^sup>2 + 15 / 10 * (c Back - p Back)\<^sup>2
             + 5 / 10 * (c Legs - p Legs)\<^sup>2 \<le> 1 / 1000000
        then 100 else 0)
   \<and> 0 < compute_manual_max_deviation p
   \<and> calculate_manual_score c p (compute_manual_max_deviation p) =
       max 0 (min 100
         ((1 - (1 * (c Neck - p Neck)\<^sup>2 + 15 / 10 * (c Back - p Back)\<^sup>2
                  + 5 / 10 * (c Legs - p Legs)\<^sup>2) / compute_manual_max_deviation p) * 100))
   \<and> calculate_manual_score (mk_angles 0 0 0) (mk_angles 100 100 100) 0 = 0
   \<and> calculate_manual_score (mk_angles 150 100 120) (mk_angles 150 100 120) 0 = 100
   \<and> compute_manual_max_deviation (mk_angles 150 100 120) = 48811327 / 10000
   \<and> calculate_manual_score (mk_angles 135 100 120) (mk_angles 150 100 120)
         (compute_manual_max_deviation (mk_angles 150 100 120))
       = 100 * (1 - 225 / (48811327 / 10000))"
proof -
  note pos = max_deviation_pos[of p]
  have a: "0 \<le> calculate_manual_score c p (compute_manual_max_deviation p)"
    "calculate_manual_score c p (compute_manual_max_deviation p) \<le> 100"
    using pos by (simp_all add: calculate_manual_score_def Let_def)
  have b: "calculate_manual_score p p (compute_manual_max_deviation p) = 100"
    using pos by (simp add: calculate_manual_score_def weighted_deviation_self Let_def)
  have c: "calculate_manual_score c p 0 =
       (if 1 * (c Neck - p Neck)\<^sup>2 + 15 / 10 * (c Back - p Back)\<^sup>2
             + 5 / 10 * (c Legs - p Legs)\<^sup>2 \<le> 1 / 1000000
        then 100 else 0)"
    unfolding weighted_deviation_explicit[symmetric]
    by (simp add: calculate_manual_score_def Let_def)
  have d: "calculate_manual_score c p (compute_manual_max_deviation p) =
       max 0 (min 100
         ((1 - (1 * (c Neck - p Neck)\<^sup>2 + 15 / 10 * (c Back - p Back)\<^sup>2
                  + 5 / 10 * (c Legs - p Legs)\<^sup>2) / compute_manual_max_deviation p) * 100))"
    unfolding weighted_deviation_explicit[symmetric]
    using pos by (simp add: calculate_manual_score_def Let_def)
  have e: "calculate_manual_score (mk_angles 0 0 0) (mk_angles 100 100 100) 0 = 0"
    by (simp add: calculate_manual_score_def weighted_deviation_explicit mk_angles_def Let_def)
  have f: "calculate_manual_score (mk_angles 150 100 120) (mk_angles 150 100 120) 0 = 100"
    by (simp add: calculate_manual_score_def weighted_deviation_self Let_def)
  have g: "calculate_manual_score (mk_angles 135 100 120) (mk_angles 150 100 120)
         (compute_manual_max_deviation (mk_angles 150 100 120))
       = 100 * (1 - 225 / (48811327 / 10000))"
    unfolding max_deviation_example
    by (simp add: calculate_manual_score_def weighted_deviation_explicit mk_angles_def Let_def)
  show ?thesis
    apply (intro conjI)
    subgoal by (rule a(1))
    subgoal by (rule a(2))
    subgoal by (rule b)
    subgoal by (rule c)
    subgoal by (rule pos)
    subgoal by (rule d)
    subgoal by (rule e)
    subgoal by (rule f)
    subgoal by (rule max_deviation_example)
    subgoal by (rule g)
    done
qed

subsection \<open>Angle of three points\<close>

text \<open>
  Claim C7. For all points \<open>a\<close>, \<open>b\<close>, \<open>c\<close> the angle computed by the clipped
  arc-cosine formula lies in \<open>[0, 180]\<close>, and it is symmetric in its outer arguments.
\<close>

theorem C7_angle:
  "0 \<le> calculate_angle a b c \<and> calculate_angle a b c \<le> 180
   \<and> calculate_angle a b c = calculate_angle c b a"
proof -
  define v where "v = np_clip (np_dot (vsub a b) (vsub c b) /
      (np_norm (vsub a b) * np_norm (vsub c b) + 1 / 1000000)) (- 1) 1"
  have v: "- 1 \<le> v" "v \<le> 1" by (simp_all add: v_def np_clip_def)
  have eq: "calculate_angle a b c = arccos v * 180 / pi"
    by (simp add: calculate_angle_def Let_def np_degrees_def v_def)
  have "0 \<le> arccos v" "arccos v \<le> pi"
    using v arccos_lbound arccos_ubound by auto
  then have b: "0 \<le> arccos v * 180 / pi" "arccos v * 180 / pi \<le> 180"
    using pi_gt_zero by (simp_all add: field_simps)
  have sym: "calculate_angle a b c = calculate_angle c b a"
    by (simp add: calculate_angle_def Let_def np_dot_def mult.commute)
  show ?thesis using b sym eq by simp
qed

subsection \<open>Reference resolver\<close>

lemmas payload_eval = get_angles_from_payload_def PPD_get_angles_from_payload_def
  angle_keys_def PPD_angle_keys_def extract_angles_def PPD_extract_angles_def dict_get_def
  has_key_def try_float_def geometric_angles_def build_keypoints_lookup_def person_lookup_def
  py_or_def candidate_keys_def entry_name_def

lemma base_file_angles:
  "get_angles_from_keypoint_file sf example_files ''base.json'' = Inr (Some (mk_angles 150 100 120))"
  "PPD_load_reference_angles sf example_files ''base.json'' = Inr (Some (mk_angles 150 100 120))"
  by (simp_all add: get_angles_from_keypoint_file_def PPD_load_reference_angles_def
      example_files_def angles_payload_def payload_eval)

lemma user_file_angles:
  "get_angles_from_keypoint_file sf example_files ''user.json'' = Inr (Some (mk_angles 140 105 120))"
  "PPD_load_reference_angles sf example_files ''user.json'' = Inr (Some (mk_angles 140 105 120))"
  by (simp_all add: get_angles_from_keypoint_file_def PPD_load_reference_angles_def
      example_files_def angles_payload_def payload_eval)

lemma resolve_user:
  "resolve_reference_angles sf example_files ''base.json'' (Some ''user.json'') =
     Inr (Some \<lparr>res_base_angles = mk_angles 150 100 120,
                res_personal_angles = mk_angles 140 105 120,
                res_offsets = angle_offsets (mk_angles 140 105 120) (mk_angles 150 100 120),
                res_personal_path = ''user.json''\<rparr>)"
  by (simp add: resolve_reference_angles_def base_file_angles user_file_angles)

lemma PPD_resolve_user:
  "PPD_resolve_reference_angles sf example_files ''base.json'' ''user.json'' =
     Inr (Some \<lparr>res_base_angles = mk_angles 150 100 120,
                res_personal_angles = mk_angles 140 105 120,
                res_offsets = angle_offsets (mk_angles 140 105 120) (mk_angles 150 100 120),
                res_personal_path = ''user.json''\<rparr>)"
  by (simp add: PPD_resolve_reference_angles_def base_file_angles user_file_angles
      path_exists_def example_files_def)

text \<open>
  What holds of the resolver of both modules as long as reading a reference file
  returns: it returns \<open>None\<close> exactly when reading the baseline returns \<open>None\<close>; when the
  baseline yields angles and the personal reference is not given, names no file, or
  reading it returns \<open>None\<close>, the personal angles are the base angles, every offset is
  zero and the resolved path is the base path; in every successful result each offset is
  the personal angle minus the base angle.
\<close>

lemma resolver_returning:
  "(resolve_reference_angles sf fs bp pp = Inr None)
      = (get_angles_from_keypoint_file sf fs bp = Inr None)
   \<and> (PPD_resolve_reference_angles sf fs bp up = Inr None)
      = (PPD_load_reference_angles sf fs bp = Inr None)
   \<and> (get_angles_from_keypoint_file sf fs bp = Inr (Some b)
        \<and> (pp = None \<or> pp = Some pth
              \<and> (fs pth = Missing \<or> get_angles_from_keypoint_file sf fs pth = Inr None))
      \<longrightarrow> resolve_reference_angles sf fs bp pp =
            Inr (Some \<lparr>res_base_angles = b, res_personal_angles = b,
                       res_offsets = (\<lambda>k. 0), res_personal_path = bp\<rparr>))
   \<and> (PPD_load_reference_angles sf fs bp = Inr (Some b')
        \<and> (\<not> path_exists fs up \<or> PPD_load_reference_angles sf fs up = Inr None)
      \<longrightarrow> PPD_resolve_reference_angles sf fs bp up =
            Inr (Some \<lparr>res_base_angles = b', res_personal_angles = b',
                       res_offsets = (\<lambda>k. 0), res_personal_path = bp\<rparr>))
   \<and> (resolve_reference_angles sf fs bp pp = Inr (Some r)
      \<longrightarrow> (\<forall>k. res_offsets r k = res_personal_angles r k - res_base_angles r k))
   \<and> (PPD_resolve_reference_angles sf fs bp up = Inr (Some r')
      \<longrightarrow> (\<forall>k. res_offsets r' k = res_personal_angles r' k - res_base_angles r' k))"
proof -
  have miss: "fs pth = Missing \<Longrightarrow> get_angles_from_keypoint_file sf fs pth = Inr None"
    by (simp add: get_angles_from_keypoint_file_def)
  have a: "(resolve_reference_angles sf fs bp pp = Inr None)
      = (get_angles_from_keypoint_file sf fs bp = Inr None)"
    by (auto simp add: resolve_reference_angles_def Let_def split: sum.splits option.splits)
  have b: "(PPD_resolve_reference_angles sf fs bp up = Inr None)
      = (PPD_load_reference_angles sf fs bp = Inr None)"
    by (auto simp add: PPD_resolve_reference_angles_def split: sum.splits option.splits)
  have c: "resolve_reference_angles sf fs bp pp =
            Inr (Some \<lparr>res_base_angles = b, res_personal_angles = b,
                       res_offsets = (\<lambda>k. 0), res_personal_path = bp\<rparr>)"
    if "get_angles_from_keypoint_file sf fs bp = Inr (Some b)"
      and "pp = None \<or> pp = Some pth
              \<and> (fs pth = Missing \<or> get_angles_from_keypoint_file sf fs pth = Inr None)"
    using that miss
    by (auto simp add: resolve_reference_angles_def angle_offsets_def Let_def)
  have d: "PPD_resolve_reference_angles sf fs bp up =
            Inr (Some \<lparr>res_base_angles = b', res_personal_angles = b',
                       res_offsets = (\<lambda>k. 0), res_personal_path = bp\<rparr>)"
    if "PPD_load_reference_angles sf fs bp = Inr (Some b')"
      and "\<not> path_exists fs up \<or> PPD_load_reference_angles sf fs up = Inr None"
    using that
    by (auto simp add: PPD_resolve_reference_angles_def angle_offsets_def)
  have e: "res_offsets r k = res_personal_angles r k - res_base_angles r k"
    if "resolve_reference_angles sf fs bp pp = Inr (Some r)" for k
    using that
    by (auto simp add: resolve_reference_angles_def angle_offsets_def Let_def
        split: sum.splits option.splits)
  have f: "res_offsets r' k = res_personal_angles r' k - res_base_angles r' k"
    if "PPD_resolve_reference_angles sf fs bp up = Inr (Some r')" for k
    using that
    by (auto simp add: PPD_resolve_reference_angles_def angle_offsets_def
        split: sum.splits option.splits if_splits)
  show ?thesis using a b c d e f by blast
qed

lemma resolver_returning_example:
  "get_angles_from_keypoint_file no_numeric_strings example_files ''base.json''
      = Inr (Some (mk_angles 150 100 120))
   \<and> example_files ''gone.json'' = Missing
   \<and> \<not> path_exists example_files ''gone.json''
   \<and> resolve_reference_angles no_numeric_strings example_files ''base.json'' (Some ''gone.json'') =
        Inr (Some \<lparr>res_base_angles = mk_angles 150 100 120,
                   res_personal_angles = mk_angles 150 100 120,
                   res_offsets = (\<lambda>k. 0), res_personal_path = ''base.json''\<rparr>)
   \<and> PPD_resolve_reference_angles no_numeric_strings example_files ''base.json'' ''gone.json'' =
        Inr (Some \<lparr>res_base_angles = mk_angles 150 100 120,
                   res_personal_angles = mk_angles 150 100 120,
                   res_offsets = (\<lambda>k. 0), res_personal_path = ''base.json''\<rparr>)
   \<and> resolve_reference_angles no_numeric_strings example_files ''gone.json'' (Some ''user.json'')
        = Inr None
   \<and> (\<exists>r. resolve_reference_angles no_numeric_strings example_files ''base.json''
              (Some ''user.json'') = Inr (Some r)
          \<and> res_offsets r Neck = - 10 \<and> res_offsets r Back = 5 \<and> res_offsets r Legs = 0)
   \<and> (\<exists>r. PPD_resolve_reference_angles no_numeric_strings example_files ''base.json''
              ''user.json'' = Inr (Some r)
          \<and> res_offsets r Neck = - 10 \<and> res_offsets r Back = 5 \<and> res_offsets r Legs = 0)"
proof -
  let ?sf = no_numeric_strings
  have h1: "get_angles_from_keypoint_file ?sf example_files ''base.json''
      = Inr (Some (mk_angles 150 100 120))"
    by (rule base_file_angles)
  have h1': "PPD_load_reference_angles ?sf example_files ''base.json''
      = Inr (Some (mk_angles 150 100 120))"
    by (rule base_file_angles)
  have h2: "example_files ''gone.json'' = Missing" "\<not> path_exists example_files ''gone.json''"
    by (simp_all add: example_files_def path_exists_def)
  have h3: "get_angles_from_keypoint_file ?sf example_files ''gone.json'' = Inr None"
    by (simp add: get_angles_from_keypoint_file_def h2)
  note t1 = resolver_returning[of ?sf example_files "''base.json''" "Some ''gone.json''"
      "''gone.json''" "mk_angles 150 100 120" "''gone.json''" "mk_angles 150 100 120"]
  note t2 = resolver_returning[of ?sf example_files "''gone.json''" "Some ''user.json''"]
  note t3 = resolver_returning[of ?sf example_files "''base.json''" "Some ''user.json''"
      "''user.json''" _ _ _
      "\<lparr>res_base_angles = mk_angles 150 100 120, res_personal_angles = mk_angles 140 105 120,
                res_offsets = angle_offsets (mk_angles 140 105 120) (mk_angles 150 100 120), res_personal_path = ''user.json''\<rparr>"
      "\<lparr>res_base_angles = mk_angles 150 100 120, res_personal_angles = mk_angles 140 105 120,
                res_offsets = angle_offsets (mk_angles 140 105 120) (mk_angles 150 100 120), res_personal_path = ''user.json''\<rparr>"]
  have c1: "resolve_reference_angles ?sf example_files ''base.json'' (Some ''gone.json'') =
        Inr (Some \<lparr>res_base_angles = mk_angles 150 100 120,
                   res_personal_angles = mk_angles 150 100 120,
                   res_offsets = (\<lambda>k. 0), res_personal_path = ''base.json''\<rparr>)"
    using t1 h1 h2 by simp
  have c2: "PPD_resolve_reference_angles ?sf example_files ''base.json'' ''gone.json'' =
        Inr (Some \<lparr>res_base_angles = mk_angles 150 100 120,
                   res_personal_angles = mk_angles 150 100 120,
                   res_offsets = (\<lambda>k. 0), res_personal_path = ''base.json''\<rparr>)"
    using t1 h1' h2 by simp
  have c3: "resolve_reference_angles ?sf example_files ''gone.json'' (Some ''user.json'') = Inr None"
    using t2 h3 by simp
  have c4: "\<exists>r. resolve_reference_angles ?sf example_files ''base.json''
              (Some ''user.json'') = Inr (Some r)
          \<and> res_offsets r Neck = - 10 \<and> res_offsets r Back = 5 \<and> res_offsets r Legs = 0"
    using t3 resolve_user[of ?sf] by (simp add: mk_angles_def)
  have c5: "\<exists>r. PPD_resolve_reference_angles ?sf example_files ''base.json''
              ''user.json'' = Inr (Some r)
          \<and> res_offsets r Neck = - 10 \<and> res_offsets r Back = 5 \<and> res_offsets r Legs = 0"
    using t3 PPD_resolve_user[of ?sf] by (simp add: mk_angles_def)
  show ?thesis using h1 h2 c1 c2 c3 c4 c5 by simp
qed

lemma faulty_base_file:
  "get_angles_from_keypoint_file sf faulty_files ''base.json'' = Inr (Some (mk_angles 150 100 120))"
  "PPD_load_reference_angles sf faulty_files ''base.json'' = Inr (Some (mk_angles 150 100 120))"
  by (simp_all add: get_angles_from_keypoint_file_def PPD_load_reference_angles_def
      faulty_files_def angles_payload_def payload_eval)

lemma faulty_text_file:
  "get_angles_from_keypoint_file no_numeric_strings faulty_files ''text.json'' = Inl ValueError"
  "PPD_load_reference_angles no_numeric_strings faulty_files ''text.json'' = Inr None"
  by (simp_all add: get_angles_from_keypoint_file_def PPD_load_reference_angles_def
      faulty_files_def string_angle_payload_def no_numeric_strings_def payload_eval)

lemma faulty_list_file:
  "get_angles_from_keypoint_file no_numeric_strings faulty_files ''list.json'' = Inl TypeError"
  "PPD_load_reference_angles no_numeric_strings faulty_files ''list.json'' = Inl TypeError"
  by (simp_all add: get_angles_from_keypoint_file_def PPD_load_reference_angles_def
      faulty_files_def list_name_payload_def no_numeric_strings_def payload_eval)

text \<open>
  Claim C3 does not hold of the code. A reference file that fails to yield angles can make
  the resolver raise, where the claim asks for the failure sentinel (baseline) or for the
  fall-back to the baseline (personal reference). In \<^verbatim>\<open>lightGBM.py\<close> the file
  \<^verbatim>\<open>{"neck": "abc", "back": 1, "legs": 2}\<close> as the baseline makes
  \<^verbatim>\<open>resolve_reference_angles\<close> raise \<^verbatim>\<open>ValueError\<close> instead of returning \<open>None\<close>, and as
  the personal reference beside a good baseline it makes it raise instead of falling
  back; the resolver of \<open>PersonalizedPostureDetector\<close> returns \<open>None\<close> in the first case and
  falls back to the base angles with zero offsets in the second. In both modules a file
  whose keypoint has a list for its name makes the resolver raise \<^verbatim>\<open>TypeError\<close>, as the
  baseline and as the personal reference.
\<close>

theorem C3_resolver_raises:
  "get_angles_from_keypoint_file no_numeric_strings faulty_files ''text.json'' = Inl ValueError
   \<and> resolve_reference_angles no_numeric_strings faulty_files ''text.json'' None = Inl ValueError
   \<and> resolve_reference_angles no_numeric_strings faulty_files ''text.json'' None \<noteq> Inr None
   \<and> get_angles_from_keypoint_file no_numeric_strings faulty_files ''base.json''
        = Inr (Some (mk_angles 150 100 120))
   \<and> resolve_reference_angles no_numeric_strings faulty_files ''base.json'' (Some ''text.json'')
        = Inl ValueError
   \<and> resolve_reference_angles no_numeric_strings faulty_files ''base.json'' (Some ''text.json'')
        \<noteq> Inr (Some \<lparr>res_base_angles = mk_angles 150 100 120,
                        res_personal_angles = mk_angles 150 100 120,
                        res_offsets = (\<lambda>k. 0), res_personal_path = ''base.json''\<rparr>)
   \<and> PPD_load_reference_angles no_numeric_strings faulty_files ''text.json'' = Inr None
   \<and> PPD_resolve_reference_angles no_numeric_strings faulty_files ''text.json'' ''base.json''
        = Inr None
   \<and> PPD_resolve_reference_angles no_numeric_strings faulty_files ''base.json'' ''text.json''
        = Inr (Some \<lparr>res_base_angles = mk_angles 150 100 120,
                        res_personal_angles = mk_angles 150 100 120,
                        res_offsets = (\<lambda>k. 0), res_personal_path = ''base.json''\<rparr>)
   \<and> resolve_reference_angles no_numeric_strings faulty_files ''list.json'' None = Inl TypeError
   \<and> resolve_reference_angles no_numeric_strings faulty_files ''base.json'' (Some ''list.json'')
        = Inl TypeError
   \<and> PPD_resolve_reference_angles no_numeric_strings faulty_files ''list.json'' ''base.json''
        = Inl TypeError
   \<and> PPD_resolve_reference_angles no_numeric_strings faulty_files ''base.json'' ''list.json''
        = Inl TypeError"
proof -
  let ?sf = no_numeric_strings
  have ex: "path_exists faulty_files ''text.json''" "path_exists faulty_files ''list.json''"
    by (simp_all add: path_exists_def faulty_files_def)
  have a: "resolve_reference_angles ?sf faulty_files ''text.json'' None = Inl ValueError"
    by (simp add: resolve_reference_angles_def faulty_text_file)
  have b: "resolve_reference_angles ?sf faulty_files ''base.json'' (Some ''text.json'')
      = Inl ValueError"
    by (simp add: resolve_reference_angles_def faulty_base_file faulty_text_file)
  have c: "PPD_resolve_reference_angles ?sf faulty_files ''text.json'' ''base.json'' = Inr None"
    by (simp add: PPD_resolve_reference_angles_def faulty_text_file)
  have d: "PPD_resolve_reference_angles ?sf faulty_files ''base.json'' ''text.json''
      = Inr (Some \<lparr>res_base_angles = mk_angles 150 100 120,
                      res_personal_angles = mk_angles 150 100 120,
                      res_offsets = (\<lambda>k. 0), res_personal_path = ''base.json''\<rparr>)"
    by (simp add: PPD_resolve_reference_angles_def faulty_base_file faulty_text_file ex
        angle_offsets_def)
  have e: "resolve_reference_angles ?sf faulty_files ''list.json'' None = Inl TypeError"
    by (simp add: resolve_reference_angles_def faulty_list_file)
  have f: "resolve_reference_angles ?sf faulty_files ''base.json'' (Some ''list.json'')
      = Inl TypeError"
    by (simp add: resolve_reference_angles_def faulty_base_file faulty_list_file)
  have g: "PPD_resolve_reference_angles ?sf faulty_files ''list.json'' ''base.json''
      = Inl TypeError"
    by (simp add: PPD_resolve_reference_angles_def faulty_list_file)
  have h: "PPD_resolve_reference_angles ?sf faulty_files ''base.json'' ''list.json''
      = Inl TypeError"
    by (simp add: PPD_resolve_reference_angles_def faulty_base_file faulty_list_file ex)
  show ?thesis
    apply (intro conjI)
    subgoal by (rule faulty_text_file(1))
    subgoal by (rule a)
    subgoal by (simp add: a)
    subgoal by (rule faulty_base_file(1))
    subgoal by (rule b)
    subgoal by (simp add: b)
    subgoal by (rule faulty_text_file(2))
    subgoal by (rule c)
    subgoal by (rule d)
    subgoal by (rule e)
    subgoal by (rule f)
    subgoal by (rule g)
    subgoal by (rule h)
    done
qed

subsection \<open>Angle extractor: the direct path\<close>


lemma PPD_extract_numeric:
  "map_of c ''neck'' = Some (JNum n) \<Longrightarrow> map_of c ''back'' = Some (JNum b) \<Longrightarrow>
   map_of c ''legs'' = Some (JNum l) \<Longrightarrow>
   PPD_extract_angles sf (JObj c) = Some (mk_angles n b l)"
  by (simp add: PPD_extract_angles_def has_key_def dict_get_def try_float_def)

lemma extract_numeric:
  "map_of c ''neck'' = Some (JNum n) \<Longrightarrow> map_of c ''back'' = Some (JNum b) \<Longrightarrow>
   map_of c ''legs'' = Some (JNum l) \<Longrightarrow>
   extract_angles sf (JObj c) = Inr (Some (mk_angles n b l))"
  by (simp add: extract_angles_def has_key_def dict_get_def)

lemma PPD_first_angles_hit:
  "PPD_extract_angles sf (dict_get d key) = Some a \<Longrightarrow>
   \<forall>k \<in> set before. PPD_extract_angles sf (dict_get d k) = None \<Longrightarrow>
   PPD_first_angles sf d (before @ key # after) = Some a"
  by (induction before) simp_all

lemma PPD_first_angles_some:
  "key \<in> set keys \<Longrightarrow> PPD_extract_angles sf (dict_get d key) = Some a \<Longrightarrow>
   \<exists>k \<in> set keys. \<exists>a'. PPD_first_angles sf d keys = Some a'
      \<and> PPD_extract_angles sf (dict_get d k) = Some a'"
  by (induction keys) (auto split: option.splits)

lemma PPD_first_angles_only:
  "key \<in> set keys \<Longrightarrow> PPD_extract_angles sf (dict_get d key) = Some a \<Longrightarrow>
   (\<And>k. k \<in> set keys \<Longrightarrow> k \<noteq> key \<Longrightarrow> PPD_extract_angles sf (dict_get d k) = None) \<Longrightarrow>
   PPD_first_angles sf d keys = Some a"
proof (induction keys)
  case Nil
  then show ?case by simp
next
  case (Cons k keys)
  show ?case
  proof (cases "k = key")
    case True
    then show ?thesis using Cons.prems(2) by simp
  next
    case False
    then have "PPD_extract_angles sf (dict_get d k) = None"
      using Cons.prems(3)[of k] by simp
    moreover have "PPD_first_angles sf d keys = Some a"
      using Cons.IH Cons.prems False by auto
    ultimately show ?thesis by simp
  qed
qed

lemma PPD_direct_path:
  assumes "key \<in> set PPD_angle_keys"
    and "dict_get d key = JObj c"
    and "map_of c ''neck'' = Some (JNum n)" "map_of c ''back'' = Some (JNum b)"
        "map_of c ''legs'' = Some (JNum l)"
  shows "\<exists>k \<in> set PPD_angle_keys. \<exists>a'.
           PPD_get_angles_from_payload sf (JObj d) = Inr (Some a')
         \<and> PPD_extract_angles sf (dict_get d k) = Some a'"
    and "(\<forall>k \<in> set PPD_angle_keys. k \<noteq> key \<longrightarrow> map_of d k = None) \<Longrightarrow>
         PPD_get_angles_from_payload sf (JObj d) = Inr (Some (mk_angles n b l))"
proof -
  have ex: "PPD_extract_angles sf (dict_get d key) = Some (mk_angles n b l)"
    using assms PPD_extract_numeric by simp
  from PPD_first_angles_some[OF assms(1) ex]
  show "\<exists>k \<in> set PPD_angle_keys. \<exists>a'.
           PPD_get_angles_from_payload sf (JObj d) = Inr (Some a')
         \<and> PPD_extract_angles sf (dict_get d k) = Some a'"
    by (auto simp add: PPD_get_angles_from_payload_def)
  assume only: "\<forall>k \<in> set PPD_angle_keys. k \<noteq> key \<longrightarrow> map_of d k = None"
  have none: "k \<noteq> key \<Longrightarrow> k \<in> set PPD_angle_keys \<Longrightarrow>
       PPD_extract_angles sf (dict_get d k) = None" for k
    using only by (simp add: dict_get_def PPD_extract_angles_def)
  have "PPD_first_angles sf d PPD_angle_keys = Some (mk_angles n b l)"
    using assms(1) ex none by (intro PPD_first_angles_only) auto
  then show "PPD_get_angles_from_payload sf (JObj d) = Inr (Some (mk_angles n b l))"
    by (simp add: PPD_get_angles_from_payload_def)
qed

text \<open>
  Claim C4. A payload whose only angle source is a \<open>reference_angles\<close> sub-object with
  numeric \<open>neck\<close>, \<open>back\<close>, \<open>legs\<close> fields should yield these angles.
  \<open>PersonalizedPostureDetector.get_angles_from_payload\<close> does (lemma \<open>PPD_direct_path\<close>
  is the general statement for its four keys), but \<open>get_angles_from_payload\<close> of
  \<^verbatim>\<open>lightGBM.py\<close> does not look under \<open>reference_angles\<close> and returns \<open>None\<close>.
\<close>

theorem C4_reference_angles_ignored:
  "get_angles_from_payload sf reference_angles_payload = Inr None
   \<and> PPD_get_angles_from_payload sf reference_angles_payload = Inr (Some (mk_angles 150 100 120))"
  by (simp add: reference_angles_payload_def payload_eval)

subsection \<open>Angle extractor: exceptions\<close>

text \<open>
  Claim C5. Angle extraction should never raise. In \<^verbatim>\<open>lightGBM.py\<close> a non-numeric
  string in an angle field raises \<open>ValueError\<close> (the conversion is not guarded there,
  while the other module catches it and returns \<open>None\<close>); in both modules a keypoint
  entry whose name is a list raises \<open>TypeError\<close> when the name is used as a key.
\<close>

theorem C5_extraction_raises:
  "get_angles_from_payload no_numeric_strings string_angle_payload = Inl ValueError
   \<and> PPD_get_angles_from_payload no_numeric_strings string_angle_payload = Inr None
   \<and> get_angles_from_payload sf list_name_payload = Inl TypeError
   \<and> PPD_get_angles_from_payload sf list_name_payload = Inl TypeError"
  by (simp add: string_angle_payload_def list_name_payload_def no_numeric_strings_def payload_eval)

subsection \<open>Angle extractor: the geometric path\<close>









subsection \<open>Coordinate re-projector: one entry\<close>


lemma try_float_JNull [simp]: "try_float sf JNull = None"
  by (simp add: try_float_def)

lemma try_float_JNum [simp]: "try_float sf (JNum r) = Some r"
  by (simp add: try_float_def)

lemma shifted_value_JNull [simp]: "shifted_value sf dl JNull = JNull"
  by (simp add: shifted_value_def)

lemma try_float_shifted:
  "try_float sf (shifted_value sf dl v) = map_option (\<lambda>f. f + dl) (try_float sf v)"
  by (simp add: shifted_value_def split: option.splits)

lemma map_of_shift_axis:
  "map_of (shift_axis sf delta axis d) k =
     (if k = axis then map_option (shifted_value sf (delta_get delta axis)) (map_of d axis)
      else map_of d k)"
  by (auto simp add: shift_axis_def shifted_value_def update_conv' split: option.splits)

lemma keys_shift_axis: "map fst (shift_axis sf delta axis d) = map fst d"
proof -
  have "map_of d axis = Some v \<Longrightarrow> axis \<in> fst ` set d" for v
    by (force dest: map_of_SomeD)
  then show ?thesis
    by (auto simp add: shift_axis_def update_keys split: option.splits)
qed

lemma map_of_shift_axes:
  "map_of (shift_axes sf delta d) k =
     (if k = ''x'' \<or> k = ''y''
      then map_option (shifted_value sf (delta_get delta k)) (map_of d k)
      else map_of d k)"
  by (simp add: shift_axes_def map_of_shift_axis)

lemma keys_shift_axes: "map fst (shift_axes sf delta d) = map fst d"
  by (simp add: shift_axes_def keys_shift_axis)

lemma dict_get_shift_axes:
  "dict_get (shift_axes sf delta d) k =
     (if k = ''x'' \<or> k = ''y'' then shifted_value sf (delta_get delta k) (dict_get d k)
      else dict_get d k)"
  by (auto simp add: dict_get_def map_of_shift_axes split: option.splits)

lemma has_key_shift_axes: "has_key (shift_axes sf delta d) k = has_key d k"
  by (simp add: has_key_def map_of_shift_axes)

lemma shift_axes_Nil [simp]: "shift_axes sf delta [] = []"
  by (simp add: shift_axes_def shift_axis_def)

lemma shift_axes_eq_Nil [simp]: "(shift_axes sf delta d = []) = (d = [])"
  using keys_shift_axes[of sf delta d] by (metis map_is_Nil_conv)

text \<open>The entry after \<open>_apply_delta\<close>, key by key.\<close>

lemma map_of_apply_delta:
  assumes "map_of offs k = Some delta" "delta \<noteq> []"
  shows "map_of (apply_delta sf offs e k) key =
     (if key = ''x'' \<or> key = ''y''
      then map_option (shifted_value sf (delta_get delta key)) (map_of e key)
      else if key = ''position'' then map_option (shifted_position sf delta) (map_of e key)
      else map_of e key)"
proof -
  have pos: "dict_get (shift_axes sf delta e) ''position'' = dict_get e ''position''"
    by (simp add: dict_get_shift_axes)
  show ?thesis
  proof (cases "dict_get e ''position''")
    case (JObj position)
    then have m: "map_of e ''position'' = Some (JObj position)"
      by (auto simp add: dict_get_def split: option.splits)
    show ?thesis
      using assms JObj m
      by (auto simp add: apply_delta_def pos Let_def update_conv' map_of_shift_axes
          shifted_position_def)
  next
    case JNull
    then show ?thesis using assms
      by (auto simp add: apply_delta_def pos Let_def map_of_shift_axes shifted_position_def
          dict_get_def split: option.splits)
  next
    case (JBool x)
    then show ?thesis using assms
      by (auto simp add: apply_delta_def pos Let_def map_of_shift_axes shifted_position_def
          dict_get_def split: option.splits)
  next
    case (JNum x)
    then show ?thesis using assms
      by (auto simp add: apply_delta_def pos Let_def map_of_shift_axes shifted_position_def
          dict_get_def split: option.splits)
  next
    case (JStr x)
    then show ?thesis using assms
      by (auto simp add: apply_delta_def pos Let_def map_of_shift_axes shifted_position_def
          dict_get_def split: option.splits)
  next
    case (JArr x)
    then show ?thesis using assms
      by (auto simp add: apply_delta_def pos Let_def map_of_shift_axes shifted_position_def
          dict_get_def split: option.splits)
  qed
qed

lemma apply_delta_no_offset:
  "map_of offs k = None \<or> map_of offs k = Some [] \<Longrightarrow> apply_delta sf offs e k = e"
  by (auto simp add: apply_delta_def)

subsection \<open>Coordinate re-projector: traversal\<close>


lemma dict_get_JObj_key: "dict_get d k = JObj p \<Longrightarrow> k \<in> fst ` set d"
  by (force simp add: dict_get_def dest: map_of_SomeD split: option.splits)

lemma keys_apply_delta: "map fst (apply_delta sf offs e k) = map fst e"
proof (cases "map_of offs k")
  case None
  then show ?thesis by (simp add: apply_delta_def)
next
  case (Some delta)
  show ?thesis
  proof (cases "delta = []")
    case True
    then show ?thesis using Some by (simp add: apply_delta_def)
  next
    case False
    let ?e1 = "shift_axes sf delta e"
    have "map fst (AList.update ''position'' v ?e1) = map fst e"
      if "dict_get ?e1 ''position'' = JObj p" for v p
    proof -
      have "''position'' \<in> set (map fst ?e1)"
        using dict_get_JObj_key[OF that] by simp
      then show ?thesis
        by (simp add: update_keys keys_shift_axes)
    qed
    then show ?thesis using Some False
      by (auto simp add: apply_delta_def Let_def keys_shift_axes split: json.splits)
  qed
qed

lemma process_candidates_spec:
  "distinct ks \<Longrightarrow> process_candidates sf offs ks d = Inr d' \<Longrightarrow>
     map fst d' = map fst d
   \<and> (\<forall>k. k \<notin> set ks \<longrightarrow> map_of d' k = map_of d k)
   \<and> (\<forall>k \<in> set ks. rel_option (\<lambda>v v'. process_keypoints sf offs v = Inr v')
                        (map_of d k) (map_of d' k))"
proof (induction ks arbitrary: d)
  case Nil
  then show ?case by simp
next
  case (Cons c ks)
  show ?case
  proof (cases "map_of d c")
    case None
    with Cons.prems have r: "process_candidates sf offs ks d = Inr d'" by simp
    from Cons.IH[OF _ r] Cons.prems(1) None show ?thesis
      by auto
  next
    case (Some v)
    with Cons.prems obtain v' where v': "process_keypoints sf offs v = Inr v'"
      and r: "process_candidates sf offs ks (AList.update c v' d) = Inr d'"
      by (auto split: sum.splits)
    have cin: "c \<in> fst ` set d" using Some by (force dest: map_of_SomeD)
    from Cons.IH[OF _ r] Cons.prems(1)
    have ih: "map fst d' = map fst (AList.update c v' d)"
      "\<And>k. k \<notin> set ks \<Longrightarrow> map_of d' k = map_of (AList.update c v' d) k"
      "\<And>k. k \<in> set ks \<Longrightarrow> rel_option (\<lambda>v v'. process_keypoints sf offs v = Inr v')
                        (map_of (AList.update c v' d) k) (map_of d' k)"
      by auto
    have a: "map fst d' = map fst d"
      using ih(1) cin by (simp add: update_keys)
    have b: "map_of d' k = map_of d k" if "k \<notin> set (c # ks)" for k
      using that ih(2)[of k] by (simp add: update_conv')
    have c: "rel_option (\<lambda>v v'. process_keypoints sf offs v = Inr v') (map_of d k) (map_of d' k)"
      if "k \<in> set (c # ks)" for k
    proof (cases "k = c")
      case True
      then have "map_of d' k = Some v'"
        using ih(2)[of c] Cons.prems(1) by (simp add: update_conv')
      then show ?thesis using True Some v' by simp
    next
      case False
      then show ?thesis using that ih(3)[of k] by (simp add: update_conv')
    qed
    show ?thesis using a b c by blast
  qed
qed

lemma distinct_candidate_keys: "distinct candidate_keys"
  by (simp add: candidate_keys_def)

lemma process_persons_step:
  "process_persons sf offs (p # ps) = Inr ps' \<Longrightarrow>
   \<exists>p' rest'. ps' = p' # rest' \<and> process_persons sf offs ps = Inr rest'
      \<and> person_processed sf offs p p'"
  by (cases p) (auto simp add: person_processed_def split: sum.splits)

lemma process_persons_spec:
  "process_persons sf offs ps = Inr ps' \<Longrightarrow> list_all2 (person_processed sf offs) ps ps'"
proof (induction ps arbitrary: ps')
  case Nil
  then show ?case by simp
next
  case (Cons p ps)
  from process_persons_step[OF Cons.prems] obtain p' rest' where
    "ps' = p' # rest'" "process_persons sf offs ps = Inr rest'" "person_processed sf offs p p'"
    by blast
  with Cons.IH show ?case by simp
qed

lemma persons_key_not_candidate: "persons_key d \<notin> set candidate_keys"
  by (simp add: persons_key_def candidate_keys_def)

lemma persons_key_present:
  "py_or (dict_get d ''persons'') (dict_get d ''people'') = JArr persons \<Longrightarrow>
   map_of d (persons_key d) = Some (JArr persons)
   \<or> (persons = [] \<and> persons_key d = ''people'' \<and> map_of d ''people'' = Some (JArr []))"
  by (auto simp add: py_or_def persons_key_def dict_get_def split: if_splits option.splits)

lemma persons_key_value:
  "py_or (dict_get d ''persons'') (dict_get d ''people'') = JArr persons \<Longrightarrow>
   map_of d (persons_key d) = Some (JArr persons)"
  by (auto simp add: py_or_def persons_key_def dict_get_def split: if_splits option.splits)

lemma apply_spec:
  assumes "offs \<noteq> []" and "apply_keypoint_offsets_to_payload sf (JObj d) offs = Inr adjusted"
  shows "\<exists>d'. adjusted = JObj d' \<and> map fst d' = map fst d
     \<and> (\<forall>c \<in> set candidate_keys.
           rel_option (\<lambda>v v'. process_keypoints sf offs v = Inr v') (map_of d c) (map_of d' c))
     \<and> (\<forall>k. k \<notin> set candidate_keys \<and> k \<noteq> persons_key d \<longrightarrow> map_of d' k = map_of d k)
     \<and> (case py_or (dict_get d ''persons'') (dict_get d ''people'') of
          JArr persons \<Rightarrow>
            (\<exists>persons'. map_of d' (persons_key d) = Some (JArr persons')
                \<and> list_all2 (person_processed sf offs) persons persons')
        | _ \<Rightarrow> map_of d' (persons_key d) = map_of d (persons_key d))"
proof (cases "\<exists>persons. py_or (dict_get d ''persons'') (dict_get d ''people'') = JArr persons")
  case True
  then obtain persons where ps: "py_or (dict_get d ''persons'') (dict_get d ''people'') = JArr persons"
    by blast
  from assms ps obtain persons' d' where
    pp: "process_persons sf offs persons = Inr persons'"
    and pc: "process_candidates sf offs candidate_keys
               (AList.update (persons_key d) (JArr persons') d) = Inr d'"
    and adj: "adjusted = JObj d'"
    by (auto simp add: apply_keypoint_offsets_to_payload_def split: sum.splits)
  let ?d0 = "AList.update (persons_key d) (JArr persons') d"
  note spec = process_candidates_spec[OF distinct_candidate_keys pc]
  have pk: "map_of d (persons_key d) = Some (JArr persons)"
    using ps by (rule persons_key_value)
  then have "persons_key d \<in> set (map fst d)"
    by (force dest: map_of_SomeD)
  then have keys: "map fst ?d0 = map fst d"
    by (simp add: update_keys)
  have a: "map fst d' = map fst d" using spec keys by simp
  have b: "rel_option (\<lambda>v v'. process_keypoints sf offs v = Inr v') (map_of d c) (map_of d' c)"
    if "c \<in> set candidate_keys" for c
  proof -
    have "c \<noteq> persons_key d" using that persons_key_not_candidate by metis
    then have "map_of ?d0 c = map_of d c" by (simp add: update_conv')
    then show ?thesis using spec that by metis
  qed
  have c: "map_of d' k = map_of d k" if "k \<notin> set candidate_keys" "k \<noteq> persons_key d" for k
    using spec that by (simp add: update_conv')
  have d: "map_of d' (persons_key d) = Some (JArr persons')"
    using spec persons_key_not_candidate[of d] by (simp add: update_conv')
  have e: "list_all2 (person_processed sf offs) persons persons'"
    using pp by (rule process_persons_spec)
  show ?thesis using adj a b c d e ps by auto
next
  case False
  with assms obtain d' where
    pc: "process_candidates sf offs candidate_keys d = Inr d'"
    and adj: "adjusted = JObj d'"
    by (auto simp add: apply_keypoint_offsets_to_payload_def split: sum.splits json.splits)
  note spec = process_candidates_spec[OF distinct_candidate_keys pc]
  have d: "map_of d' (persons_key d) = map_of d (persons_key d)"
    using spec persons_key_not_candidate[of d] by simp
  show ?thesis using adj spec d False
    by (auto split: json.splits)
qed

lemma process_list_entries_step:
  "process_list_entries sf offs (e # es) = Inr es' \<Longrightarrow>
   \<exists>e' rest'. es' = e' # rest' \<and> process_list_entries sf offs es = Inr rest'
      \<and> entry_processed sf offs e e'"
  by (cases e) (auto simp add: entry_processed_def Let_def split: sum.splits if_splits)

lemma process_list_entries_spec:
  "process_list_entries sf offs es = Inr es' \<Longrightarrow> list_all2 (entry_processed sf offs) es es'"
proof (induction es arbitrary: es')
  case Nil
  then show ?case by simp
next
  case (Cons e es)
  from process_list_entries_step[OF Cons.prems] obtain e' rest' where
    "es' = e' # rest'" "process_list_entries sf offs es = Inr rest'" "entry_processed sf offs e e'"
    by blast
  with Cons.IH show ?case by simp
qed

lemma process_list_entries_returns:
  "list_all name_hashable es \<Longrightarrow> \<exists>es'. process_list_entries sf offs es = Inr es'"
proof (induction es)
  case Nil
  then show ?case by simp
next
  case (Cons e es)
  then obtain es' where "process_list_entries sf offs es = Inr es'" by auto
  with Cons.prems show ?case
    by (cases e) (auto simp add: name_hashable_def Let_def split: sum.splits)
qed

lemma process_dict_item_sequence:
  "process_dict_item sf offs (name, JArr (e0 # e1 # rest)) =
     (name, JArr (case (map_of offs (KStr name), try_float sf e0, try_float sf e1) of
                    (Some delta, Some f0, Some f1) \<Rightarrow>
                      if delta = [] then e0 # e1 # rest
                      else JNum (f0 + delta_get delta ''x'') # JNum (f1 + delta_get delta ''y'') # rest
                  | _ \<Rightarrow> e0 # e1 # rest))"
  by (simp split: option.splits)

lemma dict_get_apply_delta:
  assumes "map_of offs k = Some delta" "delta \<noteq> []"
  shows "dict_get (apply_delta sf offs e k) ''x'' = shifted_value sf (delta_get delta ''x'') (dict_get e ''x'')"
    and "dict_get (apply_delta sf offs e k) ''y'' = shifted_value sf (delta_get delta ''y'') (dict_get e ''y'')"
    and "dict_get (apply_delta sf offs e k) ''position'' = shifted_position sf delta (dict_get e ''position'')"
  by (auto simp add: dict_get_def map_of_apply_delta[OF assms] shifted_position_def split: option.splits)

subsection \<open>Coordinate re-projector: the store\<close>

text \<open>
  Every step of the re-projector writes only to objects of the copy: with the objects
  from address \<open>n\<close> on referring only to one another, the objects below \<open>n\<close> stay as
  they were.
\<close>

lemma val_in_mono: "val_in lo hi v \<Longrightarrow> lo' \<le> lo \<Longrightarrow> hi \<le> hi' \<Longrightarrow> val_in lo' hi' v"
  by (cases v) (simp_all add: val_in_def)

lemma obj_in_mono: "obj_in lo hi ob \<Longrightarrow> lo' \<le> lo \<Longrightarrow> hi \<le> hi' \<Longrightarrow> obj_in lo' hi' ob"
  by (cases ob) (auto simp add: obj_in_def list_all_iff intro: val_in_mono)

lemma alloc_region:
  "alloc j h = (v, h') \<Longrightarrow>
     (\<exists>ext. h' = h @ ext) \<and> val_in (length h) (length h') v
     \<and> (\<forall>a. length h \<le> a \<and> a < length h' \<longrightarrow> obj_in (length h) (length h') (h' ! a))"
  "alloc_list js h = (vs, h') \<Longrightarrow>
     (\<exists>ext. h' = h @ ext) \<and> list_all (val_in (length h) (length h')) vs
     \<and> (\<forall>a. length h \<le> a \<and> a < length h' \<longrightarrow> obj_in (length h) (length h') (h' ! a))"
  "alloc_items kjs h = (its, h') \<Longrightarrow>
     (\<exists>ext. h' = h @ ext) \<and> list_all (\<lambda>kv. val_in (length h) (length h') (snd kv)) its
     \<and> (\<forall>a. length h \<le> a \<and> a < length h' \<longrightarrow> obj_in (length h) (length h') (h' ! a))"
proof (induction j h and js h and kjs h arbitrary: v h' and vs h' and its h'
    rule: alloc_alloc_list_alloc_items.induct)
  case (5 xs h)
  obtain vs h1 where a: "alloc_list xs h = (vs, h1)" by (cases "alloc_list xs h")
  from 5(1)[OF a] obtain ext where ext: "h1 = h @ ext"
    and vs: "list_all (val_in (length h) (length h1)) vs"
    and objs: "\<forall>a. length h \<le> a \<and> a < length h1 \<longrightarrow> obj_in (length h) (length h1) (h1 ! a)"
    by blast
  from 5(2) a have v: "v = VRef (length h1)" and h': "h' = h1 @ [OList vs]" by simp_all
  have "obj_in (length h) (length h') (h' ! a)" if "length h \<le> a" "a < length h'" for a
  proof (cases "a < length h1")
    case True
    with objs that have "obj_in (length h) (length h1) (h1 ! a)" by simp
    then show ?thesis using True by (simp add: h' nth_append obj_in_mono)
  next
    case False
    with that have "a = length h1" by (simp add: h')
    then show ?thesis using vs
      by (auto simp add: h' obj_in_def list_all_iff intro: val_in_mono)
  qed
  then show ?case using ext by (simp add: v h' val_in_def)
next
  case (6 kvs h)
  obtain its h1 where a: "alloc_items kvs h = (its, h1)" by (cases "alloc_items kvs h")
  from 6(1)[OF a] obtain ext where ext: "h1 = h @ ext"
    and its: "list_all (\<lambda>kv. val_in (length h) (length h1) (snd kv)) its"
    and objs: "\<forall>a. length h \<le> a \<and> a < length h1 \<longrightarrow> obj_in (length h) (length h1) (h1 ! a)"
    by blast
  from 6(2) a have v: "v = VRef (length h1)" and h': "h' = h1 @ [ODict its]" by simp_all
  have "obj_in (length h) (length h') (h' ! a)" if "length h \<le> a" "a < length h'" for a
  proof (cases "a < length h1")
    case True
    with objs that have "obj_in (length h) (length h1) (h1 ! a)" by simp
    then show ?thesis using True by (simp add: h' nth_append obj_in_mono)
  next
    case False
    with that have "a = length h1" by (simp add: h')
    then show ?thesis using its
      by (auto simp add: h' obj_in_def list_all_iff intro: val_in_mono)
  qed
  then show ?case using ext by (simp add: v h' val_in_def)
next
  case (8 x xs h)
  obtain v1 h1 where a: "alloc x h = (v1, h1)" by (cases "alloc x h")
  obtain vs2 h2 where b: "alloc_list xs h1 = (vs2, h2)" by (cases "alloc_list xs h1")
  from 8(1)[OF a] obtain e1 where e1: "h1 = h @ e1"
    and v1: "val_in (length h) (length h1) v1"
    and o1: "\<forall>a. length h \<le> a \<and> a < length h1 \<longrightarrow> obj_in (length h) (length h1) (h1 ! a)"
    by blast
  from 8(2)[OF a[symmetric] b] obtain e2 where e2: "h2 = h1 @ e2"
    and v2: "list_all (val_in (length h1) (length h2)) vs2"
    and o2: "\<forall>a. length h1 \<le> a \<and> a < length h2 \<longrightarrow> obj_in (length h1) (length h2) (h2 ! a)"
    by blast
  from 8(3) a b have r: "vs = v1 # vs2" "h' = h2" by simp_all
  have le: "length h \<le> length h1" "length h1 \<le> length h2" by (simp_all add: e1 e2)
  have "obj_in (length h) (length h2) (h2 ! a)" if "length h \<le> a" "a < length h2" for a
  proof (cases "a < length h1")
    case True
    with o1 that have "obj_in (length h) (length h1) (h1 ! a)" by simp
    then show ?thesis using True le by (simp add: e2 nth_append obj_in_mono)
  next
    case False
    with o2 that have "obj_in (length h1) (length h2) (h2 ! a)" by simp
    then show ?thesis using le by (auto intro: obj_in_mono)
  qed
  moreover have "list_all (val_in (length h) (length h2)) (v1 # vs2)"
    using v1 v2 le by (auto simp add: list_all_iff intro: val_in_mono)
  ultimately show ?case by (simp add: r e1 e2)
next
  case (10 k x kvs h)
  obtain v1 h1 where a: "alloc x h = (v1, h1)" by (cases "alloc x h")
  obtain its2 h2 where b: "alloc_items kvs h1 = (its2, h2)" by (cases "alloc_items kvs h1")
  from 10(1)[OF a] obtain e1 where e1: "h1 = h @ e1"
    and v1: "val_in (length h) (length h1) v1"
    and o1: "\<forall>a. length h \<le> a \<and> a < length h1 \<longrightarrow> obj_in (length h) (length h1) (h1 ! a)"
    by blast
  from 10(2)[OF a[symmetric] b] obtain e2 where e2: "h2 = h1 @ e2"
    and v2: "list_all (\<lambda>kv. val_in (length h1) (length h2) (snd kv)) its2"
    and o2: "\<forall>a. length h1 \<le> a \<and> a < length h2 \<longrightarrow> obj_in (length h1) (length h2) (h2 ! a)"
    by blast
  from 10(3) a b have r: "its = (k, v1) # its2" "h' = h2" by simp_all
  have le: "length h \<le> length h1" "length h1 \<le> length h2" by (simp_all add: e1 e2)
  have "obj_in (length h) (length h2) (h2 ! a)" if "length h \<le> a" "a < length h2" for a
  proof (cases "a < length h1")
    case True
    with o1 that have "obj_in (length h) (length h1) (h1 ! a)" by simp
    then show ?thesis using True le by (simp add: e2 nth_append obj_in_mono)
  next
    case False
    with o2 that have "obj_in (length h1) (length h2) (h2 ! a)" by simp
    then show ?thesis using le by (auto intro: obj_in_mono)
  qed
  moreover have "list_all (\<lambda>kv. val_in (length h) (length h2) (snd kv)) ((k, v1) # its2)"
    using v1 v2 le by (auto simp add: list_all_iff intro: val_in_mono)
  ultimately show ?case by (simp add: r e1 e2)
qed (auto simp add: val_in_def)


lemma those_map_Some:
  "(those (map g xs) = Some ys) = list_all2 (\<lambda>x y. g x = Some y) xs ys"
proof (induction xs arbitrary: ys)
  case Nil
  then show ?case by auto
next
  case (Cons x xs)
  show ?case
    by (cases ys) (auto simp add: Cons.IH split: option.splits)
qed

lemma obj_at_append: "obj_at h a = Some ob \<Longrightarrow> obj_at (h @ ext) a = Some ob"
  by (auto simp add: obj_at_def nth_append split: if_splits)

lemma read_json_mono:
  "read_json h f v = Some j \<Longrightarrow> f \<le> f' \<Longrightarrow> read_json (h @ ext) f' v = Some j"
proof (induction f arbitrary: v j f')
  case 0
  then show ?case by (cases v) simp_all
next
  case (Suc f)
  show ?case
  proof (cases v)
    case (VRef a)
    from Suc.prems(2) obtain f'' where f': "f' = Suc f''" "f \<le> f''"
      by (cases f') simp_all
    from Suc.prems(1) VRef obtain ob where ob: "obj_at h a = Some ob"
      by (auto split: option.splits)
    then have ob': "obj_at (h @ ext) a = Some ob" by (rule obj_at_append)
    show ?thesis
    proof (cases ob)
      case (OList vs)
      with Suc.prems(1) VRef ob obtain js where j: "j = JArr js"
        and js: "list_all2 (\<lambda>x y. read_json h f x = Some y) vs js"
        by (auto simp add: those_map_Some)
      from js have "list_all2 (\<lambda>x y. read_json (h @ ext) f'' x = Some y) vs js"
        by (rule list_all2_mono) (rule Suc.IH[OF _ f'(2)])
      then show ?thesis by (simp add: VRef f' ob' OList j those_map_Some)
    next
      case (ODict its)
      with Suc.prems(1) VRef ob obtain kjs where j: "j = JObj kjs"
        and kjs: "list_all2 (\<lambda>x y. map_option (Pair (fst x)) (read_json h f (snd x)) = Some y)
            its kjs"
        by (auto simp add: those_map_Some)
      from kjs have "list_all2 (\<lambda>x y. map_option (Pair (fst x)) (read_json (h @ ext) f'' (snd x))
            = Some y) its kjs"
        by (rule list_all2_mono) (auto dest: Suc.IH[OF _ f'(2)])
      then show ?thesis by (simp add: VRef f' ob' ODict j those_map_Some)
    qed
  qed (use Suc.prems in simp_all)
qed

lemma alloc_read:
  "alloc j h = (v, h') \<Longrightarrow> read_json h' (length h') v = Some j"
  "alloc_list js h = (vs, h') \<Longrightarrow>
     list_all2 (\<lambda>x y. read_json h' (length h') x = Some y) vs js"
  "alloc_items kjs h = (its, h') \<Longrightarrow>
     list_all2 (\<lambda>x y. map_option (Pair (fst x)) (read_json h' (length h') (snd x)) = Some y)
       its kjs"
proof (induction j h and js h and kjs h arbitrary: v h' and vs h' and its h'
    rule: alloc_alloc_list_alloc_items.induct)
  case (5 xs h)
  obtain vs h1 where a: "alloc_list xs h = (vs, h1)" by (cases "alloc_list xs h")
  from 5(2) a have v: "v = VRef (length h1)" and h': "h' = h1 @ [OList vs]" by simp_all
  from 5(1)[OF a] have "list_all2 (\<lambda>x y. read_json h1 (length h1) x = Some y) vs xs" .
  then have "list_all2 (\<lambda>x y. read_json (h1 @ [OList vs]) (length h1) x = Some y) vs xs"
    by (rule list_all2_mono) (rule read_json_mono, assumption, simp)
  then show ?case
    by (simp add: v h' obj_at_def those_map_Some)
next
  case (6 kvs h)
  obtain its h1 where a: "alloc_items kvs h = (its, h1)" by (cases "alloc_items kvs h")
  from 6(2) a have v: "v = VRef (length h1)" and h': "h' = h1 @ [ODict its]" by simp_all
  from 6(1)[OF a] have "list_all2
      (\<lambda>x y. map_option (Pair (fst x)) (read_json h1 (length h1) (snd x)) = Some y) its kvs" .
  then have "list_all2 (\<lambda>x y. map_option (Pair (fst x))
      (read_json (h1 @ [ODict its]) (length h1) (snd x)) = Some y) its kvs"
    by (rule list_all2_mono) (auto dest: read_json_mono[where f' = "length h1"
          and ext = "[ODict its]"])
  then show ?case
    by (simp add: v h' obj_at_def those_map_Some)
next
  case (8 x xs h)
  obtain v1 h1 where a: "alloc x h = (v1, h1)" by (cases "alloc x h")
  obtain vs2 h2 where b: "alloc_list xs h1 = (vs2, h2)" by (cases "alloc_list xs h1")
  from alloc_region(2)[OF b] obtain e2 where e2: "h2 = h1 @ e2" by blast
  from 8(3) a b have r: "vs = v1 # vs2" "h' = h2" by simp_all
  from 8(1)[OF a] have "read_json h1 (length h1) v1 = Some x" .
  then have "read_json h2 (length h2) v1 = Some x"
    unfolding e2 by (rule read_json_mono) simp
  with 8(2)[OF a[symmetric] b] show ?case by (simp add: r)
next
  case (10 k x kvs h)
  obtain v1 h1 where a: "alloc x h = (v1, h1)" by (cases "alloc x h")
  obtain its2 h2 where b: "alloc_items kvs h1 = (its2, h2)" by (cases "alloc_items kvs h1")
  from alloc_region(3)[OF b] obtain e2 where e2: "h2 = h1 @ e2" by blast
  from 10(3) a b have r: "its = (k, v1) # its2" "h' = h2" by simp_all
  from 10(1)[OF a] have "read_json h1 (length h1) v1 = Some x" .
  then have "read_json h2 (length h2) v1 = Some x"
    unfolding e2 by (rule read_json_mono) simp
  with 10(2)[OF a[symmetric] b] show ?case by (simp add: r)
qed auto

lemma read_json_region:
  assumes "store_closed lo h" "length h \<le> length h'"
    and "\<forall>a. lo \<le> a \<and> a < length h \<longrightarrow> h' ! a = h ! a"
  shows "val_in lo (length h) v \<Longrightarrow> read_json h' f v = read_json h f v"
proof (induction f arbitrary: v)
  case 0
  then show ?case by (cases v) simp_all
next
  case (Suc f)
  show ?case
  proof (cases v)
    case (VRef a)
    with Suc.prems have a: "lo \<le> a" "a < length h" by (simp_all add: val_in_def)
    with assms have same: "obj_at h' a = obj_at h a" and ob: "obj_in lo (length h) (h ! a)"
      by (simp_all add: obj_at_def store_closed_def)
    have at: "obj_at h a = Some (h ! a)" using a by (simp add: obj_at_def)
    show ?thesis
    proof (cases "h ! a")
      case (OList vs)
      with ob have "\<forall>x \<in> set vs. val_in lo (length h) x"
        by (simp add: obj_in_def list_all_iff)
      then have eq: "map (read_json h' f) vs = map (read_json h f) vs"
        by (auto intro: Suc.IH)
      show ?thesis
        by (simp only: VRef read_json.simps same at option.case pobj.case OList eq)
    next
      case (ODict its)
      with ob have "\<forall>x \<in> set its. val_in lo (length h) (snd x)"
        by (simp add: obj_in_def list_all_iff)
      then have "map (\<lambda>kv. map_option (Pair (fst kv)) (read_json h' f (snd kv))) its
          = map (\<lambda>kv. map_option (Pair (fst kv)) (read_json h f (snd kv))) its"
        by (auto simp add: Suc.IH)
      then show ?thesis
        by (simp only: VRef read_json.simps same at option.case pobj.case ODict)
    qed
  qed simp_all
qed


lemma keeps_refl: "keeps n h h"
  by (simp add: keeps_def)

lemma keeps_trans: "keeps n h h1 \<Longrightarrow> keeps n h1 h2 \<Longrightarrow> keeps n h h2"
  by (auto simp add: keeps_def)

lemma keeps_update: "n \<le> a \<Longrightarrow> keeps n h (h[a := ob])"
  by (simp add: keeps_def)

lemma keeps_append: "n \<le> length h \<Longrightarrow> keeps n h (h @ ext)"
  by (simp add: keeps_def nth_append)

lemma keeps_length: "keeps n h h' \<Longrightarrow> n \<le> length h \<Longrightarrow> n \<le> length h'"
  by (simp add: keeps_def)

lemma closed_update: "store_closed n h \<Longrightarrow> obj_in n (length h) ob \<Longrightarrow> store_closed n (h[a := ob])"
  by (cases "a < length h") (auto simp add: store_closed_def nth_list_update)

lemma closed_append: "store_closed n h \<Longrightarrow> obj_in n (Suc (length h)) ob \<Longrightarrow> store_closed n (h @ [ob])"
  by (auto simp add: store_closed_def nth_append less_Suc_eq intro: obj_in_mono)

lemma closed_obj: "store_closed n h \<Longrightarrow> n \<le> a \<Longrightarrow> obj_at h a = Some ob \<Longrightarrow> obj_in n (length h) ob"
  by (auto simp add: store_closed_def obj_at_def split: if_splits)

lemma list_all_update: "list_all P al \<Longrightarrow> P (k, v) \<Longrightarrow> list_all P (AList.update k v al)"
  by (induction al) auto

lemma st_shift_axis_in:
  "list_all (\<lambda>kv. val_in lo hi (snd kv)) its \<Longrightarrow>
   list_all (\<lambda>kv. val_in lo hi (snd kv)) (st_shift_axis sf delta axis its)"
  by (auto simp add: st_shift_axis_def val_in_def intro!: list_all_update split: option.splits)

lemma st_shift_axes_in:
  "list_all (\<lambda>kv. val_in lo hi (snd kv)) its \<Longrightarrow>
   list_all (\<lambda>kv. val_in lo hi (snd kv)) (st_shift_axes sf delta its)"
  by (simp add: st_shift_axes_def st_shift_axis_in)

lemma pget_in: "list_all (\<lambda>kv. val_in lo hi (snd kv)) its \<Longrightarrow> val_in lo hi (pget its k)"
proof (cases "map_of its k")
  case None
  then show ?thesis by (simp add: pget_def val_in_def)
next
  case (Some v)
  assume "list_all (\<lambda>kv. val_in lo hi (snd kv)) its"
  moreover from Some have "(k, v) \<in> set its" by (rule map_of_SomeD)
  ultimately have "val_in lo hi v" by (auto simp add: list_all_iff)
  with Some show ?thesis by (simp add: pget_def)
qed

lemma st_apply_delta_inv:
  assumes "store_closed n h" "val_in n (length h) entry"
  shows "keeps n h (st_apply_delta sf offs h entry k)
       \<and> store_closed n (st_apply_delta sf offs h entry k)
       \<and> length (st_apply_delta sf offs h entry k) = length h"
proof (cases "\<exists>delta ea its. map_of offs k = Some delta \<and> delta \<noteq> [] \<and> entry = VRef ea
    \<and> obj_at h ea = Some (ODict its)")
  case False
  then have "st_apply_delta sf offs h entry k = h"
    by (auto simp add: st_apply_delta_def split: option.splits pval.splits pobj.splits)
  then show ?thesis using assms(1) by (simp add: keeps_refl)
next
  case True
  then obtain delta ea its where d: "map_of offs k = Some delta" "delta \<noteq> []"
    and e: "entry = VRef ea" and ob: "obj_at h ea = Some (ODict its)"
    by blast
  from assms(2) e have ea: "n \<le> ea" by (simp add: val_in_def)
  let ?its1 = "st_shift_axes sf delta its"
  let ?h1 = "h[ea := ODict ?its1]"
  from closed_obj[OF assms(1) ea ob] have its: "list_all (\<lambda>kv. val_in n (length h) (snd kv)) its"
    by (simp add: obj_in_def)
  then have its1: "list_all (\<lambda>kv. val_in n (length h) (snd kv)) ?its1"
    by (rule st_shift_axes_in)
  then have "obj_in n (length h) (ODict ?its1)" by (simp add: obj_in_def)
  with assms(1) have c1: "store_closed n ?h1" by (rule closed_update)
  have k1: "keeps n h ?h1" using ea by (rule keeps_update)
  show ?thesis
  proof (cases "\<exists>pa position. pget ?its1 ''position'' = VRef pa
      \<and> obj_at ?h1 pa = Some (ODict position) \<and> position \<noteq> []")
    case False
    then have "st_apply_delta sf offs h entry k = ?h1"
      by (auto simp add: st_apply_delta_def d e ob Let_def
          split: option.splits pval.splits pobj.splits)
    then show ?thesis using c1 k1 by simp
  next
    case True
    then obtain pa position where p: "pget ?its1 ''position'' = VRef pa"
      "obj_at ?h1 pa = Some (ODict position)" "position \<noteq> []"
      by blast
    then have r: "st_apply_delta sf offs h entry k
        = ?h1[pa := ODict (st_shift_axes sf delta position)]"
      by (simp add: st_apply_delta_def d e ob Let_def)
    from pget_in[OF its1, of "''position''"] p(1) have pa: "n \<le> pa"
      by (simp add: val_in_def)
    from closed_obj[OF c1 pa p(2)]
    have "list_all (\<lambda>kv. val_in n (length h) (snd kv)) position"
      by (simp add: obj_in_def)
    then have "list_all (\<lambda>kv. val_in n (length h) (snd kv)) (st_shift_axes sf delta position)"
      by (rule st_shift_axes_in)
    then have "obj_in n (length ?h1) (ODict (st_shift_axes sf delta position))"
      by (simp add: obj_in_def)
    with c1 have "store_closed n (?h1[pa := ODict (st_shift_axes sf delta position)])"
      by (rule closed_update)
    moreover have "keeps n h (?h1[pa := ODict (st_shift_axes sf delta position)])"
      using k1 keeps_update[OF pa] by (rule keeps_trans)
    ultimately show ?thesis by (simp add: r)
  qed
qed

lemma st_process_list_entries_inv:
  "store_closed n h \<Longrightarrow> list_all (val_in n (length h)) entries \<Longrightarrow>
   st_process_list_entries sf offs h entries = Inr h' \<Longrightarrow>
   keeps n h h' \<and> store_closed n h' \<and> length h' = length h"
proof (induction entries arbitrary: h)
  case Nil
  then show ?case by (simp add: keeps_refl)
next
  case (Cons e entries)
  from Cons.prems(2) have ve: "val_in n (length h) e"
    and rest: "list_all (val_in n (length h)) entries"
    by simp_all
  note skip = Cons.IH[OF Cons.prems(1) rest]
  show ?case
  proof (cases "\<exists>ea entry k. e = VRef ea \<and> obj_at h ea = Some (ODict entry)
      \<and> ptruthy h (st_entry_name h entry) \<and> phash (st_entry_name h entry) = Inr k")
    case True
    then obtain ea entry k where e: "e = VRef ea" "obj_at h ea = Some (ODict entry)"
      "ptruthy h (st_entry_name h entry)" "phash (st_entry_name h entry) = Inr k"
      by blast
    let ?h1 = "st_apply_delta sf offs h (VRef ea) k"
    from st_apply_delta_inv[OF Cons.prems(1) ve[unfolded e(1)], of sf offs k]
    have i: "keeps n h ?h1" "store_closed n ?h1" "length ?h1 = length h" by simp_all
    from Cons.prems(3) e have r: "st_process_list_entries sf offs ?h1 entries = Inr h'"
      by (simp add: Let_def)
    from Cons.IH[OF i(2) _ r] rest i(3)
    have "keeps n ?h1 h' \<and> store_closed n h' \<and> length h' = length ?h1" by simp
    with i show ?thesis by (auto intro: keeps_trans)
  next
    case False
    with Cons.prems(3) have "st_process_list_entries sf offs h entries = Inr h'"
      by (cases e) (auto simp add: Let_def split: option.splits pobj.splits sum.splits if_splits)
    then show ?thesis by (rule skip)
  qed
qed


lemma list_all_list_update: "list_all P xs \<Longrightarrow> P v \<Longrightarrow> list_all P (xs[i := v])"
  by (auto simp add: list_all_iff dest!: set_update_subset_insert[THEN subsetD])

lemma st_replace_sequence_inv:
  assumes "store_closed n h" "n \<le> ca" "n \<le> length h" "list_all (val_in n (length h)) xs"
  shows "keeps n h (st_replace_sequence sf delta h ca name xs)
       \<and> store_closed n (st_replace_sequence sf delta h ca name xs)"
proof -
  let ?na = "length h"
  let ?hi = "Suc (length h)"
  have xs: "list_all (val_in n ?hi) xs"
    using assms(4) by (auto simp add: list_all_iff intro: val_in_mono)
  have num: "val_in n ?hi (VNum r)" for r by (simp add: val_in_def)
  let ?h1 = "h @ [OList xs]"
  have k1: "keeps n h ?h1" using assms(3) by (rule keeps_append)
  from xs have "obj_in n ?hi (OList xs)" by (simp add: obj_in_def)
  with assms(1) have c1: "store_closed n ?h1" by (rule closed_append)
  have len1: "length ?h1 = ?hi" by simp
  have upd: "keeps n h (?h1[?na := OList ys]) \<and> store_closed n (?h1[?na := OList ys])"
    if "list_all (val_in n ?hi) ys" for ys
  proof -
    from that have "obj_in n (length ?h1) (OList ys)" by (simp add: obj_in_def)
    with c1 have "store_closed n (?h1[?na := OList ys])" by (rule closed_update)
    moreover have "keeps n h (?h1[?na := OList ys])"
      using k1 keeps_update[OF assms(3)] by (rule keeps_trans)
    ultimately show ?thesis by simp
  qed
  show ?thesis
  proof (cases "pfloat sf (xs ! 0)")
    case None
    then show ?thesis using k1 c1 by (simp add: st_replace_sequence_def Let_def)
  next
    case (Some f0)
    let ?xs1 = "xs[0 := VNum (f0 + delta_get delta ''x'')]"
    have xs1: "list_all (val_in n ?hi) ?xs1"
      using xs num by (rule list_all_list_update)
    let ?h2 = "?h1[?na := OList ?xs1]"
    show ?thesis
    proof (cases "pfloat sf (?xs1 ! 1)")
      case None
      then show ?thesis using Some upd[OF xs1] by (simp add: st_replace_sequence_def Let_def)
    next
      case f1: (Some f1)
      let ?xs2 = "?xs1[1 := VNum (f1 + delta_get delta ''y'')]"
      have xs2: "list_all (val_in n ?hi) ?xs2"
        using xs1 num by (rule list_all_list_update)
      let ?h3 = "?h2[?na := OList ?xs2]"
      have h3: "?h3 = ?h1[?na := OList ?xs2]" by simp
      have i3: "keeps n h ?h3" "store_closed n ?h3" "length ?h3 = ?hi"
        using upd[OF xs2] by (simp_all add: h3)
      show ?thesis
      proof (cases "obj_at ?h3 ca")
        case None
        then show ?thesis using Some f1 i3 by (simp add: st_replace_sequence_def Let_def)
      next
        case ob: (Some ob)
        show ?thesis
        proof (cases ob)
          case (OList x1)
          then show ?thesis using Some f1 ob i3 by (simp add: st_replace_sequence_def Let_def)
        next
          case (ODict container)
          from closed_obj[OF i3(2) assms(2) ob] ODict
          have "list_all (\<lambda>kv. val_in n ?hi (snd kv)) container"
            by (simp add: obj_in_def i3(3))
          then have "list_all (\<lambda>kv. val_in n ?hi (snd kv))
              (AList.update name (VRef ?na) container)"
            using assms(3) by (intro list_all_update) (simp_all add: val_in_def)
          then have "obj_in n (length ?h3) (ODict (AList.update name (VRef ?na) container))"
            by (simp add: obj_in_def)
          with i3(2) have "store_closed n (?h3[ca := ODict (AList.update name (VRef ?na) container)])"
            by (rule closed_update)
          moreover have "keeps n h (?h3[ca := ODict (AList.update name (VRef ?na) container)])"
            using i3(1) keeps_update[OF assms(2)] by (rule keeps_trans)
          ultimately show ?thesis
            using Some f1 ob ODict by (simp add: st_replace_sequence_def Let_def)
        qed
      qed
    qed
  qed
qed

lemma st_process_dict_items_inv:
  "store_closed n h \<Longrightarrow> n \<le> ca \<Longrightarrow> n \<le> length h \<Longrightarrow>
   list_all (\<lambda>kv. val_in n (length h) (snd kv)) items \<Longrightarrow>
   keeps n h (st_process_dict_items sf offs h ca items)
   \<and> store_closed n (st_process_dict_items sf offs h ca items)"
proof (induction items arbitrary: h)
  case Nil
  then show ?case by (simp add: keeps_refl)
next
  case (Cons it items)
  obtain name e where it: "it = (name, e)" by (cases it)
  from Cons.prems(4) it have ve: "val_in n (length h) e"
    and rest: "list_all (\<lambda>kv. val_in n (length h) (snd kv)) items"
    by simp_all
  note skip = Cons.IH[OF Cons.prems(1,2,3) rest]
  have step: "keeps n h (st_process_dict_items sf offs h1 ca items)
       \<and> store_closed n (st_process_dict_items sf offs h1 ca items)"
    if "keeps n h h1" "store_closed n h1" for h1
  proof -
    from that(1) have le: "length h \<le> length h1" by (simp add: keeps_def)
    with Cons.prems(3) have n1: "n \<le> length h1" by simp
    have "list_all (\<lambda>kv. val_in n (length h1) (snd kv)) items"
      using rest le by (auto simp add: list_all_iff intro: val_in_mono)
    from Cons.IH[OF that(2) Cons.prems(2) n1 this] that(1) show ?thesis
      by (auto intro: keeps_trans)
  qed
  show ?case
  proof (cases e)
    case (VRef ea)
    with ve have ea: "n \<le> ea" by (simp add: val_in_def)
    show ?thesis
    proof (cases "obj_at h ea")
      case None
      then show ?thesis using skip by (simp add: it VRef)
    next
      case (Some ob)
      show ?thesis
      proof (cases ob)
        case (ODict entry)
        from st_apply_delta_inv[OF Cons.prems(1) ve[unfolded VRef], of sf offs "KStr name"]
        have "keeps n h (st_apply_delta sf offs h (VRef ea) (KStr name))"
          "store_closed n (st_apply_delta sf offs h (VRef ea) (KStr name))"
          by simp_all
        from step[OF this] show ?thesis by (simp add: it VRef Some ODict)
      next
        case (OList xs)
        from closed_obj[OF Cons.prems(1) ea Some] OList
        have xs: "list_all (val_in n (length h)) xs" by (simp add: obj_in_def)
        show ?thesis
        proof (cases "\<exists>delta. 2 \<le> length xs \<and> map_of offs (KStr name) = Some delta \<and> delta \<noteq> []")
          case True
          then obtain delta where d: "2 \<le> length xs" "map_of offs (KStr name) = Some delta"
            "delta \<noteq> []"
            by blast
          from st_replace_sequence_inv[OF Cons.prems(1,2,3) xs, of sf delta name]
          have "keeps n h (st_replace_sequence sf delta h ca name xs)"
            "store_closed n (st_replace_sequence sf delta h ca name xs)"
            by simp_all
          from step[OF this] show ?thesis using d by (simp add: it VRef Some OList)
        next
          case False
          then show ?thesis using skip
            by (auto simp add: it VRef Some OList split: option.splits)
        qed
      qed
    qed
  qed (use skip in \<open>simp_all add: it\<close>)
qed


lemma st_process_keypoints_inv:
  assumes "store_closed n h" "n \<le> length h" "val_in n (length h) container"
    and "st_process_keypoints sf offs h container = Inr h'"
  shows "keeps n h h' \<and> store_closed n h'"
proof (cases container)
  case (VRef ca)
  with assms(3) have ca: "n \<le> ca" by (simp add: val_in_def)
  show ?thesis
  proof (cases "obj_at h ca")
    case None
    with assms VRef show ?thesis by (simp add: st_process_keypoints_def keeps_refl)
  next
    case (Some ob)
    show ?thesis
    proof (cases ob)
      case (OList entries)
      from closed_obj[OF assms(1) ca Some] OList
      have "list_all (val_in n (length h)) entries" by (simp add: obj_in_def)
      moreover from assms(4) VRef Some OList
      have "st_process_list_entries sf offs h entries = Inr h'"
        by (simp add: st_process_keypoints_def)
      ultimately show ?thesis
        using st_process_list_entries_inv[OF assms(1)] by blast
    next
      case (ODict items)
      from closed_obj[OF assms(1) ca Some] ODict
      have "list_all (\<lambda>kv. val_in n (length h) (snd kv)) items" by (simp add: obj_in_def)
      from st_process_dict_items_inv[OF assms(1) ca assms(2) this, of sf offs]
      show ?thesis using assms(4) VRef Some ODict by (simp add: st_process_keypoints_def)
    qed
  qed
qed (use assms in \<open>simp_all add: st_process_keypoints_def keeps_refl\<close>)

lemma st_process_candidates_inv:
  "store_closed n h \<Longrightarrow> n \<le> da \<Longrightarrow> n \<le> length h \<Longrightarrow>
   st_process_candidates sf offs h da ks = Inr h' \<Longrightarrow>
   keeps n h h' \<and> store_closed n h'"
proof (induction ks arbitrary: h)
  case Nil
  then show ?case by (simp add: keeps_refl)
next
  case (Cons k ks)
  note skip = Cons.IH[OF Cons.prems(1,2,3)]
  show ?case
  proof (cases "\<exists>d container. obj_at h da = Some (ODict d) \<and> map_of d k = Some container")
    case False
    then have "st_process_candidates sf offs h da (k # ks) = st_process_candidates sf offs h da ks"
      by (auto split: option.splits pobj.splits)
    with Cons.prems(4) skip show ?thesis by simp
  next
    case True
    then obtain d container where d: "obj_at h da = Some (ODict d)" "map_of d k = Some container"
      by blast
    from closed_obj[OF Cons.prems(1,2) d(1)]
    have "list_all (\<lambda>kv. val_in n (length h) (snd kv)) d" by (simp add: obj_in_def)
    moreover from d(2) have "(k, container) \<in> set d" by (rule map_of_SomeD)
    ultimately have vc: "val_in n (length h) container" by (auto simp add: list_all_iff)
    from Cons.prems(4) d obtain h1 where
      h1: "st_process_keypoints sf offs h container = Inr h1"
      and r: "st_process_candidates sf offs h1 da ks = Inr h'"
      by (auto split: sum.splits)
    from st_process_keypoints_inv[OF Cons.prems(1,3) vc h1]
    have i1: "keeps n h h1" "store_closed n h1" by simp_all
    from i1(1) Cons.prems(3) have "n \<le> length h1" by (rule keeps_length)
    from Cons.IH[OF i1(2) Cons.prems(2) this r] i1(1) show ?thesis
      by (auto intro: keeps_trans)
  qed
qed

lemma st_process_persons_inv:
  "store_closed n h \<Longrightarrow> n \<le> length h \<Longrightarrow> list_all (val_in n (length h)) persons \<Longrightarrow>
   st_process_persons sf offs h persons = Inr h' \<Longrightarrow>
   keeps n h h' \<and> store_closed n h'"
proof (induction persons arbitrary: h)
  case Nil
  then show ?case by (simp add: keeps_refl)
next
  case (Cons p persons)
  from Cons.prems(3) have vp: "val_in n (length h) p"
    and rest: "list_all (val_in n (length h)) persons"
    by simp_all
  note skip = Cons.IH[OF Cons.prems(1,2) rest]
  show ?case
  proof (cases "\<exists>pa person. p = VRef pa \<and> obj_at h pa = Some (ODict person)")
    case False
    then have "st_process_persons sf offs h (p # persons) = st_process_persons sf offs h persons"
      by (cases p) (auto split: option.splits pobj.splits)
    with Cons.prems(4) skip show ?thesis by simp
  next
    case True
    then obtain pa person where p: "p = VRef pa" "obj_at h pa = Some (ODict person)"
      by blast
    from vp p(1) have pa: "n \<le> pa" by (simp add: val_in_def)
    from Cons.prems(4) p obtain h1 where
      h1: "st_process_candidates sf offs h pa candidate_keys = Inr h1"
      and r: "st_process_persons sf offs h1 persons = Inr h'"
      by (auto split: sum.splits)
    from st_process_candidates_inv[OF Cons.prems(1) pa Cons.prems(2) h1]
    have i1: "keeps n h h1" "store_closed n h1" by simp_all
    from i1(1) Cons.prems(2) have n1: "n \<le> length h1" by (rule keeps_length)
    from i1(1) have "length h \<le> length h1" by (simp add: keeps_def)
    with rest have "list_all (val_in n (length h1)) persons"
      by (auto simp add: list_all_iff intro: val_in_mono)
    from Cons.IH[OF i1(2) n1 this r] i1(1) show ?thesis
      by (auto intro: keeps_trans)
  qed
qed

lemma st_adjust_inv:
  assumes "store_closed n h" "n \<le> aa" "n \<le> length h"
    and "st_adjust sf offs h aa = Inr h'"
  shows "keeps n h h' \<and> store_closed n h'"
proof (cases "\<exists>adjusted. obj_at h aa = Some (ODict adjusted)")
  case False
  then have "st_adjust sf offs h aa = Inr h"
    by (auto simp add: st_adjust_def split: option.splits pobj.splits)
  with assms show ?thesis by (simp add: keeps_refl)
next
  case True
  then obtain adjusted where a: "obj_at h aa = Some (ODict adjusted)" by blast
  note plain = st_process_candidates_inv[OF assms(1,2,3), of sf offs candidate_keys h']
  let ?persons = "por h (pget adjusted ''persons'') (pget adjusted ''people'')"
  from closed_obj[OF assms(1,2) a]
  have its: "list_all (\<lambda>kv. val_in n (length h) (snd kv)) adjusted" by (simp add: obj_in_def)
  have vp: "val_in n (length h) ?persons"
    using pget_in[OF its] by (simp add: por_def)
  show ?thesis
  proof (cases "\<exists>pl persons. ?persons = VRef pl \<and> obj_at h pl = Some (OList persons)")
    case False
    then have "st_adjust sf offs h aa = st_process_candidates sf offs h aa candidate_keys"
      using a by (auto simp add: st_adjust_def split: pval.splits option.splits pobj.splits)
    with assms(4) plain show ?thesis by simp
  next
    case True
    then obtain pl persons where p: "?persons = VRef pl" "obj_at h pl = Some (OList persons)"
      by blast
    from vp p(1) have pl: "n \<le> pl" by (simp add: val_in_def)
    from closed_obj[OF assms(1) pl p(2)]
    have ps: "list_all (val_in n (length h)) persons" by (simp add: obj_in_def)
    from assms(4) a p obtain h1 where
      h1: "st_process_persons sf offs h persons = Inr h1"
      and r: "st_process_candidates sf offs h1 aa candidate_keys = Inr h'"
      by (auto simp add: st_adjust_def split: sum.splits)
    from st_process_persons_inv[OF assms(1,3) ps h1]
    have i1: "keeps n h h1" "store_closed n h1" by simp_all
    from i1(1) assms(3) have n1: "n \<le> length h1" by (rule keeps_length)
    from st_process_candidates_inv[OF i1(2) assms(2) n1 r] i1(1) show ?thesis
      by (auto intro: keeps_trans)
  qed
qed

lemma alloc_closed:
  assumes "alloc j h = (v, h1)"
  shows "store_closed (length h) h1" "keeps (length h) h h1" "val_in (length h) (length h1) v"
proof -
  from alloc_region(1)[OF assms] obtain ext where
    ext: "h1 = h @ ext" and v: "val_in (length h) (length h1) v"
    and obs: "\<forall>a. length h \<le> a \<and> a < length h1 \<longrightarrow> obj_in (length h) (length h1) (h1 ! a)"
    by blast
  from obs show "store_closed (length h) h1" by (simp add: store_closed_def)
  show "keeps (length h) h h1" unfolding ext by (rule keeps_append) simp
  from v show "val_in (length h) (length h1) v" .
qed

lemma st_apply_frame:
  assumes "st_apply_keypoint_offsets_to_payload sf h payload offs = Some (Inr (res, h'))"
  shows "keeps (length h) h h'"
proof (cases "\<exists>a d. payload = VRef a \<and> obj_at h a = Some (ODict d)")
  case False
  then have "st_apply_keypoint_offsets_to_payload sf h payload offs = Some (Inr (payload, h))"
    by (auto simp add: st_apply_keypoint_offsets_to_payload_def
        split: pval.splits option.splits pobj.splits)
  with assms show ?thesis by (simp add: keeps_refl)
next
  case True
  then obtain a d where p: "payload = VRef a" "obj_at h a = Some (ODict d)" by blast
  from assms p obtain tree where t: "read_json h (length h) (VRef a) = Some tree"
    by (auto simp add: st_apply_keypoint_offsets_to_payload_def split: option.splits)
  obtain v h1 where al: "alloc tree h = (v, h1)" by (cases "alloc tree h")
  note c = alloc_closed[OF al]
  show ?thesis
  proof (cases "\<exists>aa. v = VRef aa \<and> offs \<noteq> []")
    case False
    with assms p t al have "h' = h1"
      by (auto simp add: st_apply_keypoint_offsets_to_payload_def split: pval.splits)
    with c(2) show ?thesis by simp
  next
    case True
    then obtain aa where v: "v = VRef aa" "offs \<noteq> []" by blast
    from c(3) v(1) have aa: "length h \<le> aa" by (simp add: val_in_def)
    from c(2) have len: "length h \<le> length h1" by (simp add: keeps_def)
    from assms p t al v have "st_adjust sf offs h1 aa = Inr h'"
      by (auto simp add: st_apply_keypoint_offsets_to_payload_def split: sum.splits)
    from st_adjust_inv[OF c(1) aa len this] c(2) show ?thesis
      by (auto intro: keeps_trans)
  qed
qed

lemma read_json_keeps:
  "read_json h f v = Some j \<Longrightarrow> keeps (length h) h h' \<Longrightarrow> read_json h' f v = Some j"
proof (induction f arbitrary: v j)
  case 0
  then show ?case by (cases v) simp_all
next
  case (Suc f)
  show ?case
  proof (cases v)
    case (VRef a)
    from Suc.prems(1) VRef obtain ob where ob: "obj_at h a = Some ob"
      by (auto split: option.splits)
    then have a: "a < length h" by (auto simp add: obj_at_def split: if_splits)
    with Suc.prems(2) ob have ob': "obj_at h' a = Some ob"
      by (auto simp add: keeps_def obj_at_def)
    show ?thesis
    proof (cases ob)
      case (OList vs)
      from Suc.prems(1) VRef ob OList obtain js where
        js: "those (map (read_json h f) vs) = Some js" "j = JArr js"
        by auto
      from js(1) have "list_all2 (\<lambda>x y. read_json h f x = Some y) vs js"
        by (simp add: those_map_Some)
      then have "list_all2 (\<lambda>x y. read_json h' f x = Some y) vs js"
        by (rule list_all2_mono) (rule Suc.IH, assumption, rule Suc.prems(2))
      then have "those (map (read_json h' f) vs) = Some js"
        by (simp add: those_map_Some)
      with VRef ob' OList js(2) show ?thesis by simp
    next
      case (ODict its)
      let ?g = "\<lambda>h kv. map_option (Pair (fst kv)) (read_json h f (snd kv))"
      from Suc.prems(1) VRef ob ODict obtain kjs where
        js: "those (map (?g h) its) = Some kjs" "j = JObj kjs"
        by auto
      from js(1) have "list_all2 (\<lambda>x y. ?g h x = Some y) its kjs"
        by (simp add: those_map_Some)
      then have "list_all2 (\<lambda>x y. ?g h' x = Some y) its kjs"
      proof (rule list_all2_mono)
        fix x :: "string \<times> pval" and y :: "string \<times> json"
        assume "?g h x = Some y"
        then obtain j' where "read_json h f (snd x) = Some j'" "y = (fst x, j')" by auto
        with Suc.IH[OF this(1) Suc.prems(2)] show "?g h' x = Some y" by simp
      qed
      then have "those (map (?g h') its) = Some kjs"
        by (simp add: those_map_Some)
      with VRef ob' ODict js(2) show ?thesis by simp
    qed
  qed (use Suc.prems in simp_all)
qed

lemma st_apply_total:
  "read_json h (length h) payload = Some j \<Longrightarrow>
   st_apply_keypoint_offsets_to_payload sf h payload offs \<noteq> None"
  by (auto simp add: st_apply_keypoint_offsets_to_payload_def
      split: pval.splits option.splits pobj.splits prod.splits sum.splits)

lemma read_dict:
  assumes "read_json h (length h) (VRef a) = Some tree" "obj_at h a = Some (ODict d)"
  shows "\<exists>kjs. tree = JObj kjs"
proof -
  from assms(2) have "0 < length h" by (auto simp add: obj_at_def split: if_splits)
  then obtain f where "length h = Suc f" by (cases "length h") simp_all
  with assms show ?thesis by auto
qed

lemma alloc_dict:
  assumes "alloc (JObj kjs) h = (v, h1)"
  shows "\<exists>aa. v = VRef aa \<and> length h \<le> aa \<and> aa < length h1"
proof -
  obtain its h0 where its: "alloc_items kjs h = (its, h0)" by (cases "alloc_items kjs h")
  from alloc_region(3)[OF its] obtain ext where "h0 = h @ ext" by blast
  with assms its show ?thesis by auto
qed

lemma st_apply_result_copy:
  assumes "st_apply_keypoint_offsets_to_payload sf h (VRef a) offs = Some (Inr (res, h'))"
    and "obj_at h a = Some (ODict d)"
  shows "\<exists>aa. res = VRef aa \<and> length h \<le> aa"
proof -
  from assms obtain tree where t: "read_json h (length h) (VRef a) = Some tree"
    by (auto simp add: st_apply_keypoint_offsets_to_payload_def split: option.splits)
  from read_dict[OF t assms(2)] obtain kjs where kjs: "tree = JObj kjs" by blast
  obtain v h1 where al: "alloc tree h = (v, h1)" by (cases "alloc tree h")
  from alloc_dict[OF al[unfolded kjs]] obtain aa where aa: "v = VRef aa" "length h \<le> aa"
    by blast
  from assms t al aa have "res = VRef aa"
    by (auto simp add: st_apply_keypoint_offsets_to_payload_def split: if_splits sum.splits)
  with aa(2) show ?thesis by simp
qed

lemma st_apply_no_offsets:
  assumes "st_apply_keypoint_offsets_to_payload sf h (VRef a) [] = Some (Inr (res, h'))"
    and "obj_at h a = Some (ODict d)"
  shows "read_json h' (length h') res = read_json h (length h) (VRef a)"
proof -
  from assms obtain tree where t: "read_json h (length h) (VRef a) = Some tree"
    by (auto simp add: st_apply_keypoint_offsets_to_payload_def split: option.splits)
  from read_dict[OF t assms(2)] obtain kjs where kjs: "tree = JObj kjs" by blast
  obtain v h1 where al: "alloc tree h = (v, h1)" by (cases "alloc tree h")
  from alloc_dict[OF al[unfolded kjs]] obtain aa where aa: "v = VRef aa" by blast
  from assms t al aa have "res = v" "h' = h1"
    by (auto simp add: st_apply_keypoint_offsets_to_payload_def)
  with alloc_read(1)[OF al] t show ?thesis by simp
qed

lemma capture_loaded: "alloc capture_payload [] = (VRef 9, capture_store)"
  by (simp add: capture_payload_def capture_store_def left_ear_entry_def left_ear_list_entry_def)

lemma capture_read: "read_json capture_store (length capture_store) (VRef 9) = Some capture_payload"
  by (simp add: capture_payload_def capture_store_def left_ear_entry_def left_ear_list_entry_def
      eval_nat_numeral obj_at_def)

lemmas store_eval = st_apply_keypoint_offsets_to_payload_def st_adjust_def st_process_keypoints_def
  st_replace_sequence_def st_apply_delta_def st_shift_axes_def st_shift_axis_def st_entry_name_def
  por_def pget_def obj_at_def delta_get_def candidate_keys_def Let_def

lemma capture_store_adjusted:
  "st_apply_keypoint_offsets_to_payload no_numeric_strings capture_store (VRef 9) capture_offsets
     = Some (Inr (VRef 19, adjusted_capture_store))"
  by (simp add: capture_payload_def capture_store_def adjusted_capture_store_def capture_offsets_def
      left_ear_entry_def left_ear_list_entry_def no_numeric_strings_def
      eval_nat_numeral store_eval)

lemma adjusted_capture_read:
  "read_json adjusted_capture_store (length adjusted_capture_store) (VRef 19)
     = Some adjusted_capture_payload"
  by (simp add: adjusted_capture_payload_def capture_store_def adjusted_capture_store_def
      eval_nat_numeral obj_at_def)

subsection \<open>Coordinate re-projector: the whole payload\<close>

lemmas reproject_eval = apply_keypoint_offsets_to_payload_def py_or_def dict_get_def
  persons_key_def candidate_keys_def apply_delta_def shift_axes_def shift_axis_def
  delta_get_def try_float_def reproject_entry_name_def Let_def

lemma capture_adjusted:
  "apply_keypoint_offsets_to_payload no_numeric_strings capture_payload capture_offsets
     = Inr adjusted_capture_payload"
  by (simp add: capture_payload_def capture_offsets_def adjusted_capture_payload_def
      left_ear_entry_def left_ear_list_entry_def no_numeric_strings_def reproject_eval)

text \<open>
  Claim C9, as stated, asks that each of the first two elements of a sequence entry be
  shifted on its own, a non-numeric one being left untouched. The code converts both
  elements inside one \<^verbatim>\<open>try\<close> block: with the entry \<^verbatim>\<open>[1, "a", 0.9]\<close> for
  \<open>nose\<close> and the offset (5, 5) the payload comes back unchanged, not with the first
  element shifted to 6.
\<close>

theorem C9_sequence_counterexample:
  "apply_keypoint_offsets_to_payload no_numeric_strings nose_payload nose_offsets = Inr nose_payload
   \<and> apply_keypoint_offsets_to_payload no_numeric_strings nose_payload nose_offsets
       \<noteq> Inr claimed_nose_payload"
  by (simp add: nose_payload_def nose_offsets_def claimed_nose_payload_def shifted_value_def
      no_numeric_strings_def reproject_eval)

text \<open>
  Claim C9, amended. On the store: a payload that \<^verbatim>\<open>json.load\<close> has built denotes its
  tree, and on a payload that denotes a tree the call ends (it returns or raises). When
  the call returns, every object the store held before the call is as it was, so every
  value denotes the tree it denoted before: the input payload is unchanged. For a dict
  payload the result is a new object, and with an empty offset map it denotes the tree
  of the payload; a payload that is not a dict is returned itself. On trees: a payload
  that is not a dict, or an empty offset map, gives the payload back. Otherwise, when
  the call returns, the result is a dict with the same keys; every keypoint container
  (the value under \<open>keypoints\<close>, \<open>pose_keypoints\<close>, \<open>pose_keypoints_2d\<close> of the payload
  and of every dict of the \<open>persons\<close>-or-\<open>people\<close> list) has been processed and every
  other key is unchanged. In a container, a dict entry whose part has a non-empty offset
  has its \<open>x\<close> and \<open>y\<close>, and those of its \<open>position\<close> dict, replaced by the float
  value plus the offset of that axis (0 for an axis the offset lacks) when the value
  converts to a float, and left untouched when it is missing or does not convert; its
  other keys are unchanged; an entry whose part has no offset, or an empty one, is
  unchanged. A sequence entry of a dict container is shifted in its first two elements
  only when the part has a non-empty offset and both elements convert to floats, and is
  unchanged otherwise. Coordinate values never make the call raise: a dict container
  always returns, and a list container returns whenever its entries' names are hashable.
\<close>

theorem C9_reprojection:
  "(alloc tree h0 = (p, h) \<longrightarrow> read_json h (length h) p = Some tree)
   \<and> (read_json h (length h) p = Some tree \<longrightarrow>
        st_apply_keypoint_offsets_to_payload sf h p offs \<noteq> None)
   \<and> (st_apply_keypoint_offsets_to_payload sf h p offs = Some (Inr (res, h')) \<longrightarrow>
        keeps (length h) h h'
        \<and> (\<forall>fuel w t. read_json h fuel w = Some t \<longrightarrow> read_json h' fuel w = Some t))
   \<and> (obj_at h a = Some (ODict dd)
        \<and> st_apply_keypoint_offsets_to_payload sf h (VRef a) offs = Some (Inr (res, h')) \<longrightarrow>
        (\<exists>aa. res = VRef aa \<and> length h \<le> aa))
   \<and> (obj_at h a = Some (ODict dd)
        \<and> st_apply_keypoint_offsets_to_payload sf h (VRef a) [] = Some (Inr (res, h')) \<longrightarrow>
        read_json h' (length h') res = read_json h (length h) (VRef a))
   \<and> ((\<forall>b items. p = VRef b \<longrightarrow> obj_at h b \<noteq> Some (ODict items)) \<longrightarrow>
        st_apply_keypoint_offsets_to_payload sf h p offs = Some (Inr (p, h)))
   \<and> apply_keypoint_offsets_to_payload sf payload [] = Inr payload
   \<and> ((\<forall>d. payload \<noteq> JObj d) \<longrightarrow> apply_keypoint_offsets_to_payload sf payload offs = Inr payload)
   \<and> (offs \<noteq> [] \<and> apply_keypoint_offsets_to_payload sf (JObj d) offs = Inr adjusted \<longrightarrow>
        (\<exists>d'. adjusted = JObj d' \<and> map fst d' = map fst d
           \<and> (\<forall>c \<in> set candidate_keys.
                 rel_option (\<lambda>v v'. process_keypoints sf offs v = Inr v') (map_of d c) (map_of d' c))
           \<and> (\<forall>key. key \<notin> set candidate_keys \<and> key \<noteq> persons_key d
                 \<longrightarrow> map_of d' key = map_of d key)
           \<and> (case py_or (dict_get d ''persons'') (dict_get d ''people'') of
                JArr persons \<Rightarrow>
                  (\<exists>persons'. map_of d' (persons_key d) = Some (JArr persons')
                      \<and> list_all2 (person_processed sf offs) persons persons')
              | _ \<Rightarrow> map_of d' (persons_key d) = map_of d (persons_key d))))
   \<and> (process_candidates sf offs candidate_keys person = Inr person' \<longrightarrow>
        map fst person' = map fst person
        \<and> (\<forall>key. key \<notin> set candidate_keys \<longrightarrow> map_of person' key = map_of person key)
        \<and> (\<forall>c \<in> set candidate_keys.
              rel_option (\<lambda>v v'. process_keypoints sf offs v = Inr v')
                (map_of person c) (map_of person' c)))
   \<and> process_keypoints sf offs (JObj items) = Inr (JObj (map (process_dict_item sf offs) items))
   \<and> (process_keypoints sf offs (JArr es) = Inr v' \<longrightarrow>
        (\<exists>es'. v' = JArr es' \<and> list_all2 (entry_processed sf offs) es es'))
   \<and> (list_all name_hashable es \<longrightarrow> (\<exists>es'. process_keypoints sf offs (JArr es) = Inr (JArr es')))
   \<and> process_dict_item sf offs (name, JObj e) = (name, JObj (apply_delta sf offs e (KStr name)))
   \<and> process_dict_item sf offs (name, JArr (e0 # e1 # rest)) =
        (name, JArr (case (map_of offs (KStr name), try_float sf e0, try_float sf e1) of
                       (Some delta, Some f0, Some f1) \<Rightarrow>
                         if delta = [] then e0 # e1 # rest
                         else JNum (f0 + delta_get delta ''x'')
                              # JNum (f1 + delta_get delta ''y'') # rest
                     | _ \<Rightarrow> e0 # e1 # rest))
   \<and> (map_of offs k = Some delta \<and> delta \<noteq> [] \<longrightarrow>
        dict_get (apply_delta sf offs e k) ''x''
          = shifted_value sf (delta_get delta ''x'') (dict_get e ''x'')
        \<and> dict_get (apply_delta sf offs e k) ''y''
          = shifted_value sf (delta_get delta ''y'') (dict_get e ''y'')
        \<and> dict_get (apply_delta sf offs e k) ''position''
          = shifted_position sf delta (dict_get e ''position'')
        \<and> (\<forall>key. key \<noteq> ''x'' \<and> key \<noteq> ''y'' \<and> key \<noteq> ''position''
              \<longrightarrow> map_of (apply_delta sf offs e k) key = map_of e key)
        \<and> map fst (apply_delta sf offs e k) = map fst e)
   \<and> (shifted_position sf delta (JObj position) = JObj position'
        \<longrightarrow> dict_get position' ''x'' = shifted_value sf (delta_get delta ''x'') (dict_get position ''x'')
          \<and> dict_get position' ''y'' = shifted_value sf (delta_get delta ''y'') (dict_get position ''y'')
          \<and> (\<forall>key. key \<noteq> ''x'' \<and> key \<noteq> ''y'' \<longrightarrow> map_of position' key = map_of position key)
          \<and> map fst position' = map fst position)
   \<and> ((\<forall>p. v \<noteq> JObj p) \<longrightarrow> shifted_position sf delta v = v)
   \<and> (map_of offs k = None \<or> map_of offs k = Some [] \<longrightarrow> apply_delta sf offs e k = e)
   \<and> (try_float sf v = None \<longrightarrow> shifted_value sf dl v = v)
   \<and> (try_float sf v = Some f \<longrightarrow> shifted_value sf dl v = JNum (f + dl))"
proof -
  have s1: "read_json h (length h) p = Some tree" if "alloc tree h0 = (p, h)"
    using that by (rule alloc_read(1))
  have s2: "st_apply_keypoint_offsets_to_payload sf h p offs \<noteq> None"
    if "read_json h (length h) p = Some tree"
    using that by (rule st_apply_total)
  have s3: "keeps (length h) h h'"
    if "st_apply_keypoint_offsets_to_payload sf h p offs = Some (Inr (res, h'))"
    using that by (rule st_apply_frame)
  have s4: "\<forall>fuel w t. read_json h fuel w = Some t \<longrightarrow> read_json h' fuel w = Some t"
    if "st_apply_keypoint_offsets_to_payload sf h p offs = Some (Inr (res, h'))"
    using s3[OF that] by (blast intro: read_json_keeps)
  have s5: "\<exists>aa. res = VRef aa \<and> length h \<le> aa"
    if "obj_at h a = Some (ODict dd)"
      "st_apply_keypoint_offsets_to_payload sf h (VRef a) offs = Some (Inr (res, h'))"
    using that(2,1) by (rule st_apply_result_copy)
  have s6: "read_json h' (length h') res = read_json h (length h) (VRef a)"
    if "obj_at h a = Some (ODict dd)"
      "st_apply_keypoint_offsets_to_payload sf h (VRef a) [] = Some (Inr (res, h'))"
    using that(2,1) by (rule st_apply_no_offsets)
  have s7: "st_apply_keypoint_offsets_to_payload sf h p offs = Some (Inr (p, h))"
    if "\<forall>b items. p = VRef b \<longrightarrow> obj_at h b \<noteq> Some (ODict items)"
    using that
    by (auto simp add: st_apply_keypoint_offsets_to_payload_def
        split: pval.splits option.splits pobj.splits)
  have a: "apply_keypoint_offsets_to_payload sf payload [] = Inr payload"
    by (simp add: apply_keypoint_offsets_to_payload_def split: json.splits)
  have b: "apply_keypoint_offsets_to_payload sf payload offs = Inr payload"
    if "\<forall>d. payload \<noteq> JObj d"
    using that by (cases payload) (simp_all add: apply_keypoint_offsets_to_payload_def)
  note c = apply_spec[of offs sf d adjusted]
  note d = process_candidates_spec[OF distinct_candidate_keys, of sf offs person person']
  have e: "process_keypoints sf offs (JObj items) = Inr (JObj (map (process_dict_item sf offs) items))"
    by simp
  have f: "\<exists>es'. v' = JArr es' \<and> list_all2 (entry_processed sf offs) es es'"
    if "process_keypoints sf offs (JArr es) = Inr v'"
    using that process_list_entries_spec[of sf offs es] by (auto split: sum.splits)
  have g: "\<exists>es'. process_keypoints sf offs (JArr es) = Inr (JArr es')"
    if "list_all name_hashable es"
    using process_list_entries_returns[OF that, of sf offs] by auto
  have h: "process_dict_item sf offs (name, JObj e) = (name, JObj (apply_delta sf offs e (KStr name)))"
    by simp
  note i = process_dict_item_sequence[of sf offs name e0 e1 rest]
  have j: "dict_get (apply_delta sf offs e k) ''x''
          = shifted_value sf (delta_get delta ''x'') (dict_get e ''x'')
        \<and> dict_get (apply_delta sf offs e k) ''y''
          = shifted_value sf (delta_get delta ''y'') (dict_get e ''y'')
        \<and> dict_get (apply_delta sf offs e k) ''position''
          = shifted_position sf delta (dict_get e ''position'')
        \<and> (\<forall>key. key \<noteq> ''x'' \<and> key \<noteq> ''y'' \<and> key \<noteq> ''position''
              \<longrightarrow> map_of (apply_delta sf offs e k) key = map_of e key)
        \<and> map fst (apply_delta sf offs e k) = map fst e"
    if "map_of offs k = Some delta" "delta \<noteq> []"
    using dict_get_apply_delta[OF that, of sf e] map_of_apply_delta[OF that, of sf e]
      keys_apply_delta[of sf offs e k]
    by simp
  have l: "dict_get position' ''x'' = shifted_value sf (delta_get delta ''x'') (dict_get position ''x'')
          \<and> dict_get position' ''y'' = shifted_value sf (delta_get delta ''y'') (dict_get position ''y'')
          \<and> (\<forall>key. key \<noteq> ''x'' \<and> key \<noteq> ''y'' \<longrightarrow> map_of position' key = map_of position key)
          \<and> map fst position' = map fst position"
    if "shifted_position sf delta (JObj position) = JObj position'"
  proof -
    from that have "position' = shift_axes sf delta position"
      by (simp add: shifted_position_def)
    then show ?thesis
      by (simp add: dict_get_shift_axes map_of_shift_axes keys_shift_axes)
  qed
  have m: "shifted_position sf delta v = v" if "\<forall>p. v \<noteq> JObj p"
    using that by (cases v) (simp_all add: shifted_position_def)
  have n: "apply_delta sf offs e k = e" if "map_of offs k = None \<or> map_of offs k = Some []"
    using that by (rule apply_delta_no_offset)
  have o: "shifted_value sf dl v = v" if "try_float sf v = None"
    using that by (simp add: shifted_value_def)
  have p: "shifted_value sf dl v = JNum (f + dl)" if "try_float sf v = Some f"
    using that by (simp add: shifted_value_def)
  show ?thesis
    apply (intro conjI impI)
    subgoal by (rule s1)
    subgoal by (rule s2)
    subgoal by (rule s3)
    subgoal by (rule s4)
    subgoal using s5 by blast
    subgoal using s6 by blast
    subgoal by (rule s7)
    subgoal by (rule a)
    subgoal by (rule b)
    subgoal using c by blast
    subgoal using d by blast
    subgoal using d by blast
    subgoal using d by blast
    subgoal by (rule e)
    subgoal by (rule f)
    subgoal by (rule g)
    subgoal by (rule h)
    subgoal by (rule i)
    subgoal using j by blast
    subgoal using j by blast
    subgoal using j by blast
    subgoal using j by blast
    subgoal using j by blast
    subgoal using l by blast
    subgoal using l by blast
    subgoal using l by blast
    subgoal using l by blast
    subgoal by (rule m)
    subgoal by (rule n)
    subgoal by (rule o)
    subgoal by (rule p)
    done
qed

theorem C9_reprojection_witness:
  "alloc capture_payload [] = (VRef 9, capture_store)
   \<and> read_json capture_store (length capture_store) (VRef 9) = Some capture_payload
   \<and> st_apply_keypoint_offsets_to_payload no_numeric_strings capture_store (VRef 9) capture_offsets
        = Some (Inr (VRef 19, adjusted_capture_store))
   \<and> keeps (length capture_store) capture_store adjusted_capture_store
   \<and> read_json adjusted_capture_store (length capture_store) (VRef 9) = Some capture_payload
   \<and> read_json adjusted_capture_store (length adjusted_capture_store) (VRef 19)
        = Some adjusted_capture_payload
   \<and> obj_at capture_store 9
        = Some (ODict [(''keypoints'', VRef 3), (''people'', VRef 8), (''meta'', VStr ''m'')])
   \<and> (\<exists>aa. VRef 19 = VRef aa \<and> length capture_store \<le> aa)
   \<and> (\<exists>res h'. st_apply_keypoint_offsets_to_payload no_numeric_strings capture_store (VRef 9) []
                   = Some (Inr (res, h'))
          \<and> read_json h' (length h') res = Some capture_payload)
   \<and> (\<forall>b. VNum 1 \<noteq> VRef b)
   \<and> st_apply_keypoint_offsets_to_payload no_numeric_strings capture_store (VNum 1) capture_offsets
        = Some (Inr (VNum 1, capture_store))
   \<and> (\<forall>d. JArr [] \<noteq> JObj d)
   \<and> apply_keypoint_offsets_to_payload no_numeric_strings (JArr []) capture_offsets = Inr (JArr [])
   \<and> capture_offsets \<noteq> []
   \<and> apply_keypoint_offsets_to_payload no_numeric_strings capture_payload capture_offsets
        = Inr adjusted_capture_payload
   \<and> (\<exists>d d'. capture_payload = JObj d \<and> adjusted_capture_payload = JObj d'
         \<and> map fst d' = map fst d \<and> map_of d' ''meta'' = map_of d ''meta'')
   \<and> list_all name_hashable [JObj left_ear_list_entry]
   \<and> (\<exists>es'. process_keypoints no_numeric_strings capture_offsets (JArr [JObj left_ear_list_entry])
              = Inr (JArr es'))
   \<and> map_of capture_offsets (KStr ''left_ear'') = Some [(''x'', 5), (''y'', - 1)]
   \<and> dict_get (apply_delta no_numeric_strings capture_offsets left_ear_entry (KStr ''left_ear'')) ''x''
        = JNum 6
   \<and> dict_get (apply_delta no_numeric_strings capture_offsets left_ear_entry (KStr ''left_ear'')) ''y''
        = JStr ''n/a''
   \<and> dict_get (apply_delta no_numeric_strings capture_offsets left_ear_entry (KStr ''left_ear''))
        ''position'' = JObj [(''x'', JNum 7), (''y'', JNum 2)]
   \<and> map_of (apply_delta no_numeric_strings capture_offsets left_ear_entry (KStr ''left_ear''))
        ''confidence'' = Some (JNum (9 / 10))
   \<and> map_of capture_offsets (KStr ''nose'') = None
   \<and> apply_delta no_numeric_strings capture_offsets left_ear_entry (KStr ''nose'') = left_ear_entry
   \<and> try_float no_numeric_strings (JStr ''n/a'') = None
   \<and> shifted_value no_numeric_strings 5 (JStr ''n/a'') = JStr ''n/a''
   \<and> try_float no_numeric_strings (JNum 1) = Some 1
   \<and> shifted_value no_numeric_strings 5 (JNum 1) = JNum 6"
proof -
  let ?sf = no_numeric_strings
  let ?delta = "[(''x'', 5), (''y'', - 1)] :: coord"
  let ?d = "[(''keypoints'',
            JObj [(''left_ear'', JObj left_ear_entry),
                  (''left_hip'', JArr [JNum 1, JNum 2, JNum (9 / 10)])]),
           (''people'', JArr [JObj [(''pose_keypoints'', JArr [JObj left_ear_list_entry])]]),
           (''meta'', JStr ''m'')]"
  let ?root = "[(''keypoints'', VRef 3), (''people'', VRef 8), (''meta'', VStr ''m'')]"
  note u = C9_reprojection[where sf = ?sf and payload = "JArr []" and offs = capture_offsets
      and d = ?d and adjusted = adjusted_capture_payload
      and es = "[JObj left_ear_list_entry]" and e = left_ear_entry and k = "KStr ''left_ear''"
      and delta = ?delta and v = "JStr ''n/a''" and dl = 5
      and tree = capture_payload and ?h0.0 = "[]" and p = "VRef 9" and h = capture_store
      and res = "VRef 19" and h' = adjusted_capture_store and a = 9 and dd = ?root]
  note u2 = C9_reprojection[where sf = ?sf and offs = capture_offsets
      and e = left_ear_entry and k = "KStr ''nose''" and v = "JNum 1" and dl = 5 and f = 1
      and p = "VNum 1" and h = capture_store and a = 9 and dd = ?root]
  note u_loaded = u[THEN conjunct1]
  note u_total = u[THEN conjunct2, THEN conjunct1]
  note u_frame = u[THEN conjunct2, THEN conjunct2, THEN conjunct1]
  note u_new = u[THEN conjunct2, THEN conjunct2, THEN conjunct2, THEN conjunct1]
  note u2_copy = u2[THEN conjunct2, THEN conjunct2, THEN conjunct2, THEN conjunct2, THEN conjunct1]
  note u2_other = u2[THEN conjunct2, THEN conjunct2, THEN conjunct2, THEN conjunct2,
      THEN conjunct2, THEN conjunct1]
  note t = u[THEN conjunct2, THEN conjunct2, THEN conjunct2, THEN conjunct2, THEN conjunct2,
      THEN conjunct2]
  note t2 = u2[THEN conjunct2, THEN conjunct2, THEN conjunct2, THEN conjunct2, THEN conjunct2,
      THEN conjunct2]
  have g1: "read_json capture_store (length capture_store) (VRef 9) = Some capture_payload"
    using u_loaded capture_loaded by (rule mp)
  have g2: "st_apply_keypoint_offsets_to_payload ?sf capture_store (VRef 9) capture_offsets \<noteq> None"
    using u_total g1 by (rule mp)
  from u_frame capture_store_adjusted
  have g3: "keeps (length capture_store) capture_store adjusted_capture_store"
    and g4: "\<forall>fuel w t. read_json capture_store fuel w = Some t
        \<longrightarrow> read_json adjusted_capture_store fuel w = Some t"
    by blast+
  from g4 g1
  have g5: "read_json adjusted_capture_store (length capture_store) (VRef 9) = Some capture_payload"
    by blast
  have g6: "obj_at capture_store 9 = Some (ODict ?root)"
    by (simp add: capture_store_def obj_at_def)
  from u_new g6 capture_store_adjusted
  have g7: "\<exists>aa. VRef 19 = VRef aa \<and> length capture_store \<le> aa"
    by blast
  have "st_apply_keypoint_offsets_to_payload ?sf capture_store (VRef 9) [] \<noteq> None"
    using g1 by (rule st_apply_total)
  then obtain r where
    r: "st_apply_keypoint_offsets_to_payload ?sf capture_store (VRef 9) [] = Some r"
    by blast
  have "r \<noteq> Inl err" for err
    using r g1 g6 by (auto simp add: st_apply_keypoint_offsets_to_payload_def split: prod.splits pval.splits)
  then obtain x where "r = Inr x" by (cases r) auto
  with r obtain res0 h0 where
    g8: "st_apply_keypoint_offsets_to_payload ?sf capture_store (VRef 9) [] = Some (Inr (res0, h0))"
    by (cases x) auto
  note u3 = C9_reprojection[where sf = ?sf and h = capture_store and a = 9 and dd = ?root
      and res = res0 and h' = h0]
  from u3[THEN conjunct2, THEN conjunct2, THEN conjunct2, THEN conjunct2, THEN conjunct1] g6 g8
  have "read_json h0 (length h0) res0 = read_json capture_store (length capture_store) (VRef 9)"
    by blast
  with g1 g8 have g9: "\<exists>res h'. st_apply_keypoint_offsets_to_payload ?sf capture_store (VRef 9) []
                   = Some (Inr (res, h'))
          \<and> read_json h' (length h') res = Some capture_payload"
    by auto
  have g10: "\<forall>b. VNum 1 \<noteq> VRef b"
    by simp
  then have "\<forall>b items. VNum 1 = VRef b \<longrightarrow> obj_at capture_store b \<noteq> Some (ODict items)"
    by simp
  with u2_other
  have g11: "st_apply_keypoint_offsets_to_payload ?sf capture_store (VNum 1) capture_offsets
        = Some (Inr (VNum 1, capture_store))"
    by (rule mp)
  note r = t[THEN conjunct2]
  note t_nondict = r[THEN conjunct1]
  note r = r[THEN conjunct2]
  note t_traverse = r[THEN conjunct1]
  note r = r[THEN conjunct2, THEN conjunct2, THEN conjunct2, THEN conjunct2]
  note t_hashable = r[THEN conjunct1]
  note r = r[THEN conjunct2, THEN conjunct2, THEN conjunct2]
  note t_delta = r[THEN conjunct1]
  note r = r[THEN conjunct2, THEN conjunct2, THEN conjunct2, THEN conjunct2]
  note t_none = r[THEN conjunct1]
  note r2 = t2[THEN conjunct2, THEN conjunct2, THEN conjunct2, THEN conjunct2, THEN conjunct2,
      THEN conjunct2, THEN conjunct2, THEN conjunct2, THEN conjunct2, THEN conjunct2,
      THEN conjunct2, THEN conjunct2]
  note t2_nooffset = r2[THEN conjunct1]
  note t2_some = r2[THEN conjunct2, THEN conjunct2]
  have h1: "\<forall>d. JArr [] \<noteq> JObj d" by simp
  have c1: "apply_keypoint_offsets_to_payload ?sf (JArr []) capture_offsets = Inr (JArr [])"
    using t_nondict h1 by (rule mp)
  have h2: "capture_offsets \<noteq> []" by (simp add: capture_offsets_def)
  have h3: "apply_keypoint_offsets_to_payload ?sf (JObj ?d) capture_offsets
        = Inr adjusted_capture_payload"
    using capture_adjusted by (simp add: capture_payload_def)
  have meta: "''meta'' \<notin> set candidate_keys \<and> ''meta'' \<noteq> persons_key ?d"
    by (simp add: candidate_keys_def persons_key_def)
  from t_traverse h2 h3 obtain d' where d': "adjusted_capture_payload = JObj d'"
    "map fst d' = map fst ?d"
    "\<forall>key. key \<notin> set candidate_keys \<and> key \<noteq> persons_key ?d
                 \<longrightarrow> map_of d' key = map_of ?d key"
    by blast
  from d'(3) meta have "map_of d' ''meta'' = map_of ?d ''meta''" by blast
  with d'(1,2) have c3: "\<exists>d d'. capture_payload = JObj d \<and> adjusted_capture_payload = JObj d'
         \<and> map fst d' = map fst d \<and> map_of d' ''meta'' = map_of d ''meta''"
    unfolding capture_payload_def by blast
  have h4: "list_all name_hashable [JObj left_ear_list_entry]"
    by (simp add: name_hashable_def left_ear_list_entry_def reproject_entry_name_def
        dict_get_def py_or_def)
  have c4: "\<exists>es'. process_keypoints ?sf capture_offsets (JArr [JObj left_ear_list_entry])
              = Inr (JArr es')"
    using t_hashable h4 by (rule mp)
  have h5: "map_of capture_offsets (KStr ''left_ear'') = Some ?delta" "?delta \<noteq> []"
    by (simp_all add: capture_offsets_def)
  from t_delta h5 have c5: "dict_get (apply_delta ?sf capture_offsets left_ear_entry (KStr ''left_ear'')) ''x''
          = shifted_value ?sf (delta_get ?delta ''x'') (dict_get left_ear_entry ''x'')"
    "dict_get (apply_delta ?sf capture_offsets left_ear_entry (KStr ''left_ear'')) ''y''
          = shifted_value ?sf (delta_get ?delta ''y'') (dict_get left_ear_entry ''y'')"
    "dict_get (apply_delta ?sf capture_offsets left_ear_entry (KStr ''left_ear'')) ''position''
          = shifted_position ?sf ?delta (dict_get left_ear_entry ''position'')"
    "\<forall>key. key \<noteq> ''x'' \<and> key \<noteq> ''y'' \<and> key \<noteq> ''position''
        \<longrightarrow> map_of (apply_delta ?sf capture_offsets left_ear_entry (KStr ''left_ear'')) key
            = map_of left_ear_entry key"
    by blast+
  have c5x: "dict_get (apply_delta ?sf capture_offsets left_ear_entry (KStr ''left_ear'')) ''x''
      = JNum 6"
    unfolding c5(1)
    by (simp add: left_ear_entry_def dict_get_def delta_get_def shifted_value_def)
  have c5y: "dict_get (apply_delta ?sf capture_offsets left_ear_entry (KStr ''left_ear'')) ''y''
      = JStr ''n/a''"
    unfolding c5(2)
    by (simp add: left_ear_entry_def dict_get_def delta_get_def shifted_value_def try_float_def
        no_numeric_strings_def)
  have c5p: "dict_get (apply_delta ?sf capture_offsets left_ear_entry (KStr ''left_ear''))
      ''position'' = JObj [(''x'', JNum 7), (''y'', JNum 2)]"
    unfolding c5(3)
    by (simp add: left_ear_entry_def dict_get_def delta_get_def shifted_position_def
        shift_axes_def shift_axis_def)
  have c5c: "map_of (apply_delta ?sf capture_offsets left_ear_entry (KStr ''left_ear''))
        ''confidence'' = Some (JNum (9 / 10))"
    using c5(4) by (simp add: left_ear_entry_def)
  have h6: "map_of capture_offsets (KStr ''nose'') = None"
    by (simp add: capture_offsets_def)
  have c6: "apply_delta ?sf capture_offsets left_ear_entry (KStr ''nose'') = left_ear_entry"
    using t2_nooffset h6 by simp
  have h7: "try_float ?sf (JStr ''n/a'') = None"
    by (simp add: try_float_def no_numeric_strings_def)
  have c7: "shifted_value ?sf 5 (JStr ''n/a'') = JStr ''n/a''"
    using t_none h7 by (rule mp)
  have h8: "try_float ?sf (JNum 1) = Some 1" by simp
  have c8: "shifted_value ?sf 5 (JNum 1) = JNum 6"
    using t2_some h8 by simp
  show ?thesis
    apply (intro conjI)
    subgoal by (rule capture_loaded)
    subgoal by (rule g1)
    subgoal by (rule capture_store_adjusted)
    subgoal by (rule g3)
    subgoal by (rule g5)
    subgoal by (rule adjusted_capture_read)
    subgoal by (rule g6)
    subgoal by (rule g7)
    subgoal by (rule g9)
    subgoal by (rule g10)
    subgoal by (rule g11)
    subgoal by (rule h1)
    subgoal by (rule c1)
    subgoal by (rule h2)
    subgoal by (rule capture_adjusted)
    subgoal by (rule c3)
    subgoal by (rule h4)
    subgoal by (rule c4)
    subgoal by (rule h5(1))
    subgoal by (rule c5x)
    subgoal by (rule c5y)
    subgoal by (rule c5p)
    subgoal by (rule c5c)
    subgoal by (rule h6)
    subgoal by (rule c6)
    subgoal by (rule h7)
    subgoal by (rule c7)
    subgoal by (rule h8)
    subgoal by (rule c8)
    done
qed

subsection \<open>Identity calibration: one entry\<close>

lemma zero_offsets_delta_get:
  assumes "zero_offsets offs" "map_of offs k = Some delta"
  shows "delta_get delta axis = 0"
proof -
  from assms(2) have "(k, delta) \<in> set offs" by (rule map_of_SomeD)
  with assms(1) have z: "\<forall>(a, v) \<in> set delta. v = 0"
    by (auto simp add: zero_offsets_def list_all_iff)
  show ?thesis
  proof (cases "map_of delta axis")
    case None
    then show ?thesis by (simp add: delta_get_def)
  next
    case (Some v)
    then have "(axis, v) \<in> set delta" by (rule map_of_SomeD)
    with z have "v = 0" by auto
    with Some show ?thesis by (simp add: delta_get_def)
  qed
qed

lemma try_float_shifted_zero: "try_float sf (shifted_value sf 0 v) = try_float sf v"
  by (simp add: try_float_shifted option.map_ident)

lemma confidence_cong:
  assumes "dict_get p' ''visible'' = dict_get p ''visible''"
    and "dict_get p' ''confidence'' = dict_get p ''confidence''"
    and "dict_get p' ''score'' = dict_get p ''score''"
    and "dict_get p' ''probability'' = dict_get p ''probability''"
  shows "confidence sf (Some p') = confidence sf (Some p)"
  by (simp add: confidence_def Let_def assms)

lemma point_same_refl: "point_same sf p p"
  by (simp add: point_same_def)

lemma dict_get_apply_delta_other:
  assumes "key \<noteq> ''x''" "key \<noteq> ''y''" "key \<noteq> ''position''"
  shows "dict_get (apply_delta sf offs e k) key = dict_get e key"
proof (cases "map_of offs k")
  case None
  then show ?thesis by (simp add: apply_delta_no_offset)
next
  case (Some delta)
  show ?thesis
  proof (cases "delta = []")
    case True
    with Some show ?thesis by (simp add: apply_delta_no_offset)
  next
    case False
    from map_of_apply_delta[OF Some False, of sf e key] assms show ?thesis
      by (simp add: dict_get_def)
  qed
qed

lemma map_of_apply_delta_other:
  assumes "key \<noteq> ''x''" "key \<noteq> ''y''" "key \<noteq> ''position''"
  shows "map_of (apply_delta sf offs e k) key = map_of e key"
proof (cases "map_of offs k")
  case None
  then show ?thesis by (simp add: apply_delta_no_offset)
next
  case (Some delta)
  show ?thesis
  proof (cases "delta = []")
    case True
    with Some show ?thesis by (simp add: apply_delta_no_offset)
  next
    case False
    from map_of_apply_delta[OF Some False, of sf e key] assms show ?thesis
      by simp
  qed
qed

text \<open>With zero offsets an axis value keeps its float and its presence.\<close>

lemma map_of_apply_delta_axis_zero:
  assumes "zero_offsets offs" "axis = ''x'' \<or> axis = ''y''"
  shows "rel_option (\<lambda>v v'. try_float sf v' = try_float sf v)
           (map_of e axis) (map_of (apply_delta sf offs e k) axis)"
proof (cases "map_of offs k")
  case None
  then show ?thesis by (simp add: apply_delta_no_offset option.rel_refl)
next
  case (Some delta)
  show ?thesis
  proof (cases "delta = []")
    case True
    with Some show ?thesis by (simp add: apply_delta_no_offset option.rel_refl)
  next
    case False
    have z: "delta_get delta axis = 0"
      using assms(1) Some by (rule zero_offsets_delta_get)
    from map_of_apply_delta[OF Some False, of sf e axis] assms(2) z show ?thesis
      by (cases "map_of e axis") (auto simp add: try_float_shifted_zero)
  qed
qed

lemma dict_get_apply_delta_axis_zero:
  assumes "zero_offsets offs" "axis = ''x'' \<or> axis = ''y''"
  shows "try_float sf (dict_get (apply_delta sf offs e k) axis) = try_float sf (dict_get e axis)"
  using map_of_apply_delta_axis_zero[OF assms, of sf e k]
  by (cases "map_of e axis"; cases "map_of (apply_delta sf offs e k) axis")
     (simp_all add: dict_get_def)

lemma point_same_apply_delta:
  assumes "zero_offsets offs"
  shows "point_same sf e (apply_delta sf offs e k)"
proof -
  have c: "confidence sf (Some (apply_delta sf offs e k)) = confidence sf (Some e)"
    by (rule confidence_cong) (simp_all add: dict_get_apply_delta_other)
  show ?thesis
    unfolding point_same_def
    using c dict_get_apply_delta_axis_zero[OF assms, of "''x''" sf e k]
      dict_get_apply_delta_axis_zero[OF assms, of "''y''" sf e k]
    by simp
qed

lemma entry_name_apply_delta: "entry_name (apply_delta sf offs e k) = entry_name e"
  by (simp add: entry_name_def dict_get_apply_delta_other)

lemma entry_position_apply_delta:
  assumes "map_of offs k = Some delta" "delta \<noteq> []"
  shows "entry_position (apply_delta sf offs e k) = shift_axes sf delta (entry_position e)"
  using dict_get_apply_delta(3)[OF assms, of sf e]
  by (cases "dict_get e ''position''") (simp_all add: entry_position_def shifted_position_def)

lemma entry_point_apply_delta:
  assumes "zero_offsets offs"
  shows "point_same sf (entry_point e) (entry_point (apply_delta sf offs e k))"
proof (cases "map_of offs k")
  case None
  then show ?thesis by (simp add: apply_delta_no_offset point_same_refl)
next
  case (Some delta)
  show ?thesis
  proof (cases "delta = []")
    case True
    with Some show ?thesis by (simp add: apply_delta_no_offset point_same_refl)
  next
    case False
    let ?e' = "apply_delta sf offs e k"
    have z: "delta_get delta axis = 0" for axis
      using assms Some by (rule zero_offsets_delta_get)
    have pos: "entry_position ?e' = shift_axes sf delta (entry_position e)"
      using Some False by (rule entry_position_apply_delta)
    have ax: "dict_get_default ?e' axis (dict_get (entry_position ?e') axis)
        = shifted_value sf 0 (dict_get_default e axis (dict_get (entry_position e) axis))"
      if "axis = ''x'' \<or> axis = ''y''" for axis
      using that map_of_apply_delta[OF Some False, of sf e axis] z[of axis]
      by (cases "map_of e axis") (auto simp add: dict_get_default_def pos dict_get_shift_axes)
    have oth: "dict_get_default ?e' key dflt = dict_get_default e key dflt"
      if "key \<noteq> ''x''" "key \<noteq> ''y''" "key \<noteq> ''position''" for key dflt
      using map_of_apply_delta_other[OF that, of sf offs e k]
      by (simp add: dict_get_default_def)
    define xv where "xv = dict_get_default e ''x'' (dict_get (entry_position e) ''x'')"
    define yv where "yv = dict_get_default e ''y'' (dict_get (entry_position e) ''y'')"
    define cv where "cv = dict_get_default e ''confidence''
                   (dict_get_default e ''score'' (dict_get e ''probability''))"
    define vv where "vv = dict_get_default e ''visible''
                          (dict_get_default e ''is_visible'' (JBool True))"
    have ep0: "entry_point e = [(''x'', xv), (''y'', yv), (''confidence'', cv), (''visible'', vv)]"
      by (simp add: entry_point_def Let_def xv_def yv_def cv_def vv_def)
    have ep: "entry_point ?e' =
        [(''x'', shifted_value sf 0 xv), (''y'', shifted_value sf 0 yv),
         (''confidence'', cv), (''visible'', vv)]"
      by (simp add: entry_point_def Let_def ax oth dict_get_apply_delta_other
          xv_def yv_def cv_def vv_def)
    show ?thesis
      unfolding point_same_def ep0 ep
      by (simp add: confidence_def dict_get_def try_float_shifted_zero)
  qed
qed

subsection \<open>Identity calibration: lookups\<close>

lemma lookup_same_refl: "lookup_same sf l l"
  by (simp add: lookup_same_def list_all2_refl point_same_refl)

lemma lookup_same_Nil: "lookup_same sf l l' \<Longrightarrow> (l' = []) = (l = [])"
  by (auto simp add: lookup_same_def)

lemma lookup_same_update:
  "lookup_same sf l l' \<Longrightarrow> point_same sf p p' \<Longrightarrow>
   lookup_same sf (AList.update k p l) (AList.update k p' l')"
  unfolding lookup_same_def
  by (induction l l' rule: list_all2_induct) (auto simp add: prod_eq_iff)

lemma lookup_same_map_of:
  "lookup_same sf l l' \<Longrightarrow> rel_option (point_same sf) (map_of l k) (map_of l' k)"
  unfolding lookup_same_def
  by (induction l l' rule: list_all2_induct) (auto simp add: prod_eq_iff)

lemma lookup_same_confidence:
  assumes "lookup_same sf l l'"
  shows "confidence sf (map_of l' k) = confidence sf (map_of l k)"
  using lookup_same_map_of[OF assms, of k]
  by (cases "map_of l k"; cases "map_of l' k") (simp_all add: point_same_def)

lemma lookup_same_part_coords:
  assumes "lookup_same sf l l'"
  shows "part_coords sf l' s part = part_coords sf l s part"
proof -
  have c: "confidence sf (map_of l' (part_key s part)) = confidence sf (map_of l (part_key s part))"
    using assms by (rule lookup_same_confidence)
  from lookup_same_map_of[OF assms, of "part_key s part"] show ?thesis
    by (cases "map_of l (part_key s part)"; cases "map_of l' (part_key s part)")
       (auto simp add: part_coords_def c Let_def point_same_def split: option.splits)
qed

lemma lookup_same_select_side:
  "lookup_same sf l l' \<Longrightarrow> select_side sf l' = select_side sf l"
  by (simp add: select_side_def lookup_same_confidence)

lemma lookup_same_angles:
  "lookup_same sf l l' \<Longrightarrow> angles_from_lookup sf l' = angles_from_lookup sf l"
  by (simp add: angles_from_lookup_def lookup_same_select_side lookup_same_part_coords)

lemma process_dict_item_sequence_zero:
  assumes "zero_offsets offs"
  shows "\<exists>xs'. process_dict_item sf offs (label, JArr xs) = (label, JArr xs')
     \<and> (xs' = xs \<or> (\<exists>e0 e1 rest f0 f1. xs = e0 # e1 # rest
            \<and> try_float sf e0 = Some f0 \<and> try_float sf e1 = Some f1
            \<and> xs' = JNum f0 # JNum f1 # rest))"
proof (cases xs)
  case Nil
  then show ?thesis by simp
next
  case (Cons e0 xs1)
  show ?thesis
  proof (cases xs1)
    case Nil
    with Cons show ?thesis by simp
  next
    case (Cons e1 rest)
    have z: "map_of offs (KStr label) = Some delta \<Longrightarrow> delta_get delta axis = 0" for delta axis
      using assms by (rule zero_offsets_delta_get)
    show ?thesis
      unfolding \<open>xs = e0 # xs1\<close> Cons
      by (auto simp add: z split: option.splits)
  qed
qed

lemma sequence_point_same:
  assumes "try_float sf e0' = try_float sf e0" "try_float sf e1' = try_float sf e1"
  shows "point_same sf [(''x'', e0), (''y'', e1), (''confidence'', c)]
                       [(''x'', e0'), (''y'', e1'), (''confidence'', c)]"
  using assms by (simp add: point_same_def confidence_def dict_get_def)

lemma normalise_dict_items_same:
  assumes "zero_offsets offs"
  shows "lookup_same sf acc acc' \<Longrightarrow>
     lookup_same sf (normalise_dict_items items acc)
                    (normalise_dict_items (map (process_dict_item sf offs) items) acc')"
proof (induction items arbitrary: acc acc')
  case Nil
  then show ?case by simp
next
  case (Cons it items)
  obtain label v where it: "it = (label, v)" by (cases it)
  show ?case
  proof (cases v)
    case (JObj d)
    have "lookup_same sf (AList.update (KStr label) d acc)
            (AList.update (KStr label) (apply_delta sf offs d (KStr label)) acc')"
      using Cons.prems point_same_apply_delta[OF assms] by (rule lookup_same_update)
    from Cons.IH[OF this] show ?thesis by (simp add: it JObj)
  next
    case (JArr xs)
    from process_dict_item_sequence_zero[OF assms, of sf label xs] obtain xs' where
      p: "process_dict_item sf offs (label, JArr xs) = (label, JArr xs')"
      and alt: "xs' = xs \<or> (\<exists>e0 e1 rest f0 f1. xs = e0 # e1 # rest
            \<and> try_float sf e0 = Some f0 \<and> try_float sf e1 = Some f1
            \<and> xs' = JNum f0 # JNum f1 # rest)"
      by blast
    from alt show ?thesis
    proof
      assume same: "xs' = xs"
      show ?thesis
      proof (cases "\<exists>x y c extra. xs = x # y # c # extra")
        case True
        then obtain x y c extra where xs: "xs = x # y # c # extra" by blast
        have "lookup_same sf
            (AList.update (KStr label) [(''x'', x), (''y'', y), (''confidence'', c)] acc)
            (AList.update (KStr label) [(''x'', x), (''y'', y), (''confidence'', c)] acc')"
          using Cons.prems point_same_refl by (rule lookup_same_update)
        from Cons.IH[OF this] show ?thesis
          using p same by (simp add: it JArr xs del: process_dict_item.simps)
      next
        case False
        then have skip: "normalise_dict_items ((label, JArr xs) # r) a = normalise_dict_items r a" for r a
          by (cases xs; cases "tl xs"; cases "tl (tl xs)") auto
        from Cons.IH[OF Cons.prems] show ?thesis
          using p same skip by (simp add: it JArr del: process_dict_item.simps)
      qed
    next
      assume "\<exists>e0 e1 rest f0 f1. xs = e0 # e1 # rest
            \<and> try_float sf e0 = Some f0 \<and> try_float sf e1 = Some f1
            \<and> xs' = JNum f0 # JNum f1 # rest"
      then obtain e0 e1 rest f0 f1 where xs: "xs = e0 # e1 # rest"
        and f: "try_float sf e0 = Some f0" "try_float sf e1 = Some f1"
        and xs': "xs' = JNum f0 # JNum f1 # rest"
        by blast
      show ?thesis
      proof (cases rest)
        case Nil
        from Cons.IH[OF Cons.prems] show ?thesis
          using p by (simp add: it JArr xs xs' Nil del: process_dict_item.simps)
      next
        case (Cons c extra)
        have "point_same sf [(''x'', e0), (''y'', e1), (''confidence'', c)]
                       [(''x'', JNum f0), (''y'', JNum f1), (''confidence'', c)]"
          by (rule sequence_point_same) (simp_all add: f)
        with Cons.prems have "lookup_same sf
            (AList.update (KStr label) [(''x'', e0), (''y'', e1), (''confidence'', c)] acc)
            (AList.update (KStr label) [(''x'', JNum f0), (''y'', JNum f1), (''confidence'', c)] acc')"
          by (rule lookup_same_update)
        from Cons.IH[OF this] show ?thesis
          using p by (simp add: it JArr xs xs' Cons del: process_dict_item.simps)
      qed
    qed
  qed (use Cons.IH[OF Cons.prems] in \<open>simp_all add: it\<close>)
qed

lemma entry_processed_zero:
  assumes "zero_offsets offs" "entry_processed sf offs e e'"
  shows "(\<exists>entry entry'. e = JObj entry \<and> e' = JObj entry'
            \<and> entry_name entry' = entry_name entry
            \<and> point_same sf (entry_point entry) (entry_point entry'))
         \<or> ((\<forall>entry. e \<noteq> JObj entry) \<and> e' = e)"
proof (cases e)
  case (JObj entry)
  show ?thesis
  proof (cases "truthy (reproject_entry_name entry)")
    case True
    with assms(2) JObj obtain k where "e' = JObj (apply_delta sf offs entry k)"
      by (auto simp add: entry_processed_def split: sum.splits)
    then show ?thesis
      using JObj entry_name_apply_delta[of sf offs entry k]
        entry_point_apply_delta[OF assms(1), of sf entry k]
      by simp
  next
    case False
    with assms(2) JObj have "e' = e" by (simp add: entry_processed_def)
    then show ?thesis using JObj by (simp add: point_same_refl)
  qed
qed (use assms(2) in \<open>simp_all add: entry_processed_def\<close>)

lemma normalise_list_entries_same:
  assumes "zero_offsets offs"
  shows "list_all2 (entry_processed sf offs) es es' \<Longrightarrow> lookup_same sf acc acc' \<Longrightarrow>
     rel_sum (=) (lookup_same sf) (normalise_list_entries es acc) (normalise_list_entries es' acc')"
proof (induction es es' arbitrary: acc acc' rule: list_all2_induct)
  case Nil
  then show ?case by simp
next
  case (Cons e es e' es')
  from entry_processed_zero[OF assms Cons.hyps(1)] show ?case
  proof
    assume "\<exists>entry entry'. e = JObj entry \<and> e' = JObj entry'
            \<and> entry_name entry' = entry_name entry
            \<and> point_same sf (entry_point entry) (entry_point entry')"
    then obtain entry entry' where e: "e = JObj entry" "e' = JObj entry'"
      and n: "entry_name entry' = entry_name entry"
      and p: "point_same sf (entry_point entry) (entry_point entry')"
      by blast
    show ?thesis
    proof (cases "truthy (entry_name entry)")
      case False
      then show ?thesis using Cons.IH[OF Cons.prems] by (simp add: e n)
    next
      case True
      show ?thesis
      proof (cases "hash_key (entry_name entry)")
        case (Inl err)
        then show ?thesis using True by (simp add: e n)
      next
        case (Inr k)
        have "lookup_same sf (AList.update k (entry_point entry) acc)
                (AList.update k (entry_point entry') acc')"
          using Cons.prems p by (rule lookup_same_update)
        from Cons.IH[OF this] show ?thesis using True Inr by (simp add: e n)
      qed
    qed
  next
    assume a: "(\<forall>entry. e \<noteq> JObj entry) \<and> e' = e"
    then show ?thesis using Cons.IH[OF Cons.prems]
      by (cases e) simp_all
  qed
qed

lemma normalise_keypoints_same:
  assumes "zero_offsets offs" "process_keypoints sf offs v = Inr v'"
  shows "rel_sum (=) (lookup_same sf) (normalise_keypoints v) (normalise_keypoints v')"
proof (cases v)
  case (JObj items)
  with assms(2) have v': "v' = JObj (map (process_dict_item sf offs) items)" by simp
  have "lookup_same sf (normalise_dict_items items [])
          (normalise_dict_items (map (process_dict_item sf offs) items) [])"
    by (rule normalise_dict_items_same[OF assms(1) lookup_same_refl])
  then show ?thesis
    using JObj v' by simp
next
  case (JArr es)
  with assms(2) obtain es' where es': "v' = JArr es'" "process_list_entries sf offs es = Inr es'"
    by (auto split: sum.splits)
  have "rel_sum (=) (lookup_same sf) (normalise_list_entries es [])
          (normalise_list_entries es' [])"
    by (rule normalise_list_entries_same[OF assms(1) process_list_entries_spec[OF es'(2)]
          lookup_same_refl])
  then show ?thesis using JArr es'(1) by simp
qed (use assms(2) in \<open>auto simp add: lookup_same_refl\<close>)

lemma first_lookup_same:
  assumes "zero_offsets offs"
  shows "\<forall>c \<in> set ks. rel_option (\<lambda>v v'. process_keypoints sf offs v = Inr v')
                           (map_of d c) (map_of d' c) \<Longrightarrow>
     rel_sum (=) (lookup_same sf) (first_lookup d ks) (first_lookup d' ks)"
proof (induction ks)
  case Nil
  then show ?case by (simp add: lookup_same_refl)
next
  case (Cons c ks)
  then have ih: "rel_sum (=) (lookup_same sf) (first_lookup d ks) (first_lookup d' ks)"
    by simp
  from Cons.prems have r: "rel_option (\<lambda>v v'. process_keypoints sf offs v = Inr v')
                           (map_of d c) (map_of d' c)"
    by simp
  show ?case
  proof (cases "map_of d c")
    case None
    with r have "map_of d' c = None" by simp
    with None ih show ?thesis by simp
  next
    case (Some v)
    with r obtain v' where v': "map_of d' c = Some v'" "process_keypoints sf offs v = Inr v'"
      by (cases "map_of d' c") auto
    from normalise_keypoints_same[OF assms v'(2)]
    show ?thesis
      using Some v'(1) ih
      by (cases "normalise_keypoints v"; cases "normalise_keypoints v'")
         (auto dest: lookup_same_Nil)
  qed
qed

lemma person_lookup_same:
  assumes "zero_offsets offs" "list_all2 (person_processed sf offs) persons persons'"
  shows "rel_sum (=) (lookup_same sf) (person_lookup (JArr persons)) (person_lookup (JArr persons'))"
proof (cases persons)
  case Nil
  with assms(2) have "persons' = []" by simp
  with Nil show ?thesis by (simp add: person_lookup_def lookup_same_refl)
next
  case (Cons p rest)
  with assms(2) obtain p' rest' where ps': "persons' = p' # rest'"
    and pp: "person_processed sf offs p p'"
    by (auto simp add: list_all2_Cons1)
  show ?thesis
  proof (cases p)
    case (JObj person)
    with pp obtain person' where p': "p' = JObj person'"
      and pc: "process_candidates sf offs candidate_keys person = Inr person'"
      by (auto simp add: person_processed_def split: json.splits)
    from process_candidates_spec[OF distinct_candidate_keys pc]
    have "\<forall>c \<in> set candidate_keys. rel_option (\<lambda>v v'. process_keypoints sf offs v = Inr v')
                           (map_of person c) (map_of person' c)"
      by blast
    from first_lookup_same[OF assms(1) this] show ?thesis
      by (simp add: person_lookup_def Cons ps' JObj p')
  qed (use pp in \<open>simp_all add: person_processed_def person_lookup_def Cons ps' lookup_same_refl\<close>)
qed

lemma build_keypoints_lookup_same:
  assumes "zero_offsets offs" "offs \<noteq> []"
    and "apply_keypoint_offsets_to_payload sf (JObj d) offs = Inr adjusted"
  shows "rel_sum (=) (lookup_same sf) (build_keypoints_lookup (JObj d))
           (build_keypoints_lookup adjusted)"
proof -
  from apply_spec[OF assms(2,3)] obtain d' where adj: "adjusted = JObj d'"
    and cand: "\<forall>c \<in> set candidate_keys.
           rel_option (\<lambda>v v'. process_keypoints sf offs v = Inr v') (map_of d c) (map_of d' c)"
    and oth: "\<forall>k. k \<notin> set candidate_keys \<and> k \<noteq> persons_key d \<longrightarrow> map_of d' k = map_of d k"
    and per: "case py_or (dict_get d ''persons'') (dict_get d ''people'') of
          JArr persons \<Rightarrow>
            (\<exists>persons'. map_of d' (persons_key d) = Some (JArr persons')
                \<and> list_all2 (person_processed sf offs) persons persons')
        | _ \<Rightarrow> map_of d' (persons_key d) = map_of d (persons_key d)"
    by blast
  let ?ps = "py_or (dict_get d ''persons'') (dict_get d ''people'')"
  let ?ps' = "py_or (dict_get d' ''persons'') (dict_get d' ''people'')"
  have nc: "''persons'' \<notin> set candidate_keys" "''people'' \<notin> set candidate_keys"
    by (simp_all add: candidate_keys_def)
  have top: "rel_sum (=) (lookup_same sf) (first_lookup d candidate_keys)
      (first_lookup d' candidate_keys)"
    using assms(1) cand by (rule first_lookup_same)
  have pl: "rel_sum (=) (lookup_same sf) (person_lookup ?ps) (person_lookup ?ps')"
  proof (cases "\<exists>persons. ?ps = JArr persons")
    case True
    then obtain persons where ps: "?ps = JArr persons" by blast
    with per obtain persons' where pk: "map_of d' (persons_key d) = Some (JArr persons')"
      and la: "list_all2 (person_processed sf offs) persons persons'"
      by auto
    have len: "(persons' = []) = (persons = [])"
      using la by auto
    have "?ps' = JArr persons'"
    proof (cases "truthy (dict_get d ''persons'')")
      case True
      then have k: "persons_key d = ''persons''" by (simp add: persons_key_def)
      from True ps have "dict_get d ''persons'' = JArr persons" by (simp add: py_or_def)
      with True have "persons \<noteq> []" by simp
      with len have "persons' \<noteq> []" by simp
      moreover have "dict_get d' ''persons'' = JArr persons'"
        using pk k by (simp add: dict_get_def)
      ultimately show ?thesis by (simp add: py_or_def)
    next
      case False
      then have k: "persons_key d = ''people''" by (simp add: persons_key_def)
      have "map_of d' ''persons'' = map_of d ''persons''"
        using oth nc k by simp
      then have "dict_get d' ''persons'' = dict_get d ''persons''"
        by (simp add: dict_get_def)
      moreover have "dict_get d' ''people'' = JArr persons'"
        using pk k by (simp add: dict_get_def)
      ultimately show ?thesis using False by (simp add: py_or_def)
    qed
    with person_lookup_same[OF assms(1) la] ps show ?thesis by simp
  next
    case False
    with per have pk: "map_of d' (persons_key d) = map_of d (persons_key d)"
      by (cases ?ps) simp_all
    have "map_of d' k = map_of d k" if "k = ''persons'' \<or> k = ''people''" for k
      using that oth nc pk by (cases "k = persons_key d") auto
    then have "dict_get d' ''persons'' = dict_get d ''persons''"
      "dict_get d' ''people'' = dict_get d ''people''"
      by (simp_all add: dict_get_def)
    then have "?ps' = ?ps" by simp
    then show ?thesis
      using False by (cases ?ps) (simp_all add: person_lookup_def lookup_same_refl)
  qed
  show ?thesis
  proof (cases "person_lookup ?ps")
    case (Inl err)
    with pl have "person_lookup ?ps' = Inl err"
      by (cases "person_lookup ?ps'") simp_all
    with Inl show ?thesis by (simp add: build_keypoints_lookup_def adj)
  next
    case (Inr l)
    with pl obtain l' where l': "person_lookup ?ps' = Inr l'" "lookup_same sf l l'"
      by (cases "person_lookup ?ps'") simp_all
    from l'(2) have "(l' = []) = (l = [])" by (rule lookup_same_Nil)
    then show ?thesis
      using Inr l' top by (simp add: build_keypoints_lookup_def adj)
  qed
qed

subsection \<open>Identity calibration: angles of the re-projected payload\<close>

lemma direct_keys_unchanged:
  assumes "offs \<noteq> []" "apply_keypoint_offsets_to_payload sf (JObj d) offs = Inr (JObj d')"
    and "key \<notin> set candidate_keys" "key \<noteq> ''persons''" "key \<noteq> ''people''"
  shows "map_of d' key = map_of d key"
proof -
  from apply_spec[OF assms(1,2)]
  have "\<forall>k. k \<notin> set candidate_keys \<and> k \<noteq> persons_key d \<longrightarrow> map_of d' k = map_of d k"
    by auto
  moreover have "key \<noteq> persons_key d"
    using assms(4,5) by (simp add: persons_key_def)
  ultimately show ?thesis using assms(3) by blast
qed

lemma first_angles_cong:
  "\<forall>key \<in> set keys. dict_get d' key = dict_get d key \<Longrightarrow>
   first_angles sf d' keys = first_angles sf d keys"
  by (induction keys) (auto split: sum.splits option.splits)

lemma PPD_first_angles_cong:
  "\<forall>key \<in> set keys. dict_get d' key = dict_get d key \<Longrightarrow>
   PPD_first_angles sf d' keys = PPD_first_angles sf d keys"
  by (induction keys) (auto split: option.splits)

lemma get_angles_zero_offsets:
  assumes "zero_offsets offs"
    and "apply_keypoint_offsets_to_payload sf payload offs = Inr adjusted"
  shows "get_angles_from_payload sf adjusted = get_angles_from_payload sf payload"
    and "PPD_get_angles_from_payload sf adjusted = PPD_get_angles_from_payload sf payload"
proof -
  have both: "get_angles_from_payload sf adjusted = get_angles_from_payload sf payload
      \<and> PPD_get_angles_from_payload sf adjusted = PPD_get_angles_from_payload sf payload"
  proof (cases "(\<exists>d. payload = JObj d) \<and> offs \<noteq> []")
    case False
    then have "adjusted = payload"
      using assms(2)
      by (cases payload) (auto simp add: apply_keypoint_offsets_to_payload_def split: if_splits)
    then show ?thesis by simp
  next
    case True
    then obtain d where d: "payload = JObj d" and ne: "offs \<noteq> []" by blast
    from apply_spec[OF ne assms(2)[unfolded d]] obtain d' where d': "adjusted = JObj d'"
      by blast
    note ap = assms(2)[unfolded d d']
    have same: "map_of d' key = map_of d key"
      if "key \<notin> set candidate_keys" "key \<noteq> ''persons''" "key \<noteq> ''people''" for key
      using ne ap that by (rule direct_keys_unchanged)
    have g: "dict_get d' key = dict_get d key"
      if "key \<notin> set candidate_keys" "key \<noteq> ''persons''" "key \<noteq> ''people''" for key
      using same[OF that] by (simp add: dict_get_def)
    have h: "has_key d' key = has_key d key"
      if "key \<notin> set candidate_keys" "key \<noteq> ''persons''" "key \<noteq> ''people''" for key
      using same[OF that] by (simp add: has_key_def)
    have fa: "first_angles sf d' angle_keys = first_angles sf d angle_keys"
      by (rule first_angles_cong) (simp add: angle_keys_def g candidate_keys_def)
    have pfa: "PPD_first_angles sf d' PPD_angle_keys = PPD_first_angles sf d PPD_angle_keys"
      by (rule PPD_first_angles_cong) (simp add: PPD_angle_keys_def g candidate_keys_def)
    have gs: "dict_get d' ''neck'' = dict_get d ''neck''"
      "dict_get d' ''back'' = dict_get d ''back''"
      "dict_get d' ''legs'' = dict_get d ''legs''"
      "has_key d' ''neck'' = has_key d ''neck''"
      "has_key d' ''back'' = has_key d ''back''"
      "has_key d' ''legs'' = has_key d ''legs''"
      by (simp_all add: g h candidate_keys_def)
    have ea: "extract_angles sf (JObj d') = extract_angles sf (JObj d)"
      unfolding extract_angles_def json.case gs by (rule refl)
    have pea: "PPD_extract_angles sf (JObj d') = PPD_extract_angles sf (JObj d)"
      unfolding PPD_extract_angles_def json.case gs by (rule refl)
    have geo: "geometric_angles sf (JObj d') = geometric_angles sf (JObj d)"
    proof -
      from build_keypoints_lookup_same[OF assms(1) ne ap]
      have r: "rel_sum (=) (lookup_same sf) (build_keypoints_lookup (JObj d))
           (build_keypoints_lookup (JObj d'))" .
      show ?thesis
      proof (cases "build_keypoints_lookup (JObj d)")
        case (Inl err)
        with r have "build_keypoints_lookup (JObj d') = Inl err"
          by (cases "build_keypoints_lookup (JObj d')") simp_all
        with Inl show ?thesis by (simp add: geometric_angles_def)
      next
        case (Inr l)
        with r obtain l' where l': "build_keypoints_lookup (JObj d') = Inr l'" "lookup_same sf l l'"
          by (cases "build_keypoints_lookup (JObj d')") simp_all
        from l'(2) have "(l' = []) = (l = [])" "angles_from_lookup sf l' = angles_from_lookup sf l"
          by (rule lookup_same_Nil, rule lookup_same_angles)
        with Inr l'(1) show ?thesis by (simp add: geometric_angles_def)
      qed
    qed
    show ?thesis
      unfolding d d' get_angles_from_payload_def PPD_get_angles_from_payload_def json.case
        fa pfa ea pea geo
      by simp
  qed
  from both show "get_angles_from_payload sf adjusted = get_angles_from_payload sf payload"
    and "PPD_get_angles_from_payload sf adjusted = PPD_get_angles_from_payload sf payload"
    by simp_all
qed

subsection \<open>Identity calibration: coordinate offsets\<close>

lemma coords_of_lookup_distinct:
  "distinct (map fst coords) \<Longrightarrow> distinct (map fst (coords_of_lookup sf lookup coords))"
proof (induction lookup arbitrary: coords)
  case Nil
  then show ?case by simp
next
  case (Cons kp lookup)
  obtain name point where kp: "kp = (name, point)" by (cases kp)
  show ?case
    using Cons.IH[OF Cons.prems] Cons.IH[OF distinct_update[OF Cons.prems]]
    by (simp add: kp split: option.splits)
qed

lemma load_keypoint_coordinates_distinct:
  "load_keypoint_coordinates sf fs path = Inr m \<Longrightarrow> distinct (map fst m)"
proof -
  have "distinct (map fst (coords_of_lookup sf l []))" for l
    by (rule coords_of_lookup_distinct) simp
  then show "load_keypoint_coordinates sf fs path = Inr m \<Longrightarrow> distinct (map fst m)"
    by (auto simp add: load_keypoint_coordinates_def extract_keypoint_coordinates_from_payload_def
        split: file_state.splits sum.splits)
qed

lemma set_update_cases:
  "kv \<in> set (AList.update k v al) \<Longrightarrow> kv = (k, v) \<or> kv \<in> set al"
  by (induction al) (auto split: if_splits)

lemma offsets_of_items_zero:
  assumes "distinct (map fst m)"
  shows "set items \<subseteq> set m \<Longrightarrow>
     \<forall>(name, delta) \<in> set acc. delta = [(''x'', 0), (''y'', 0)] \<Longrightarrow>
     \<forall>(name, delta) \<in> set (offsets_of_items items m acc). delta = [(''x'', 0), (''y'', 0)]"
proof (induction items arbitrary: acc)
  case Nil
  then show ?case by simp
next
  case (Cons it items)
  obtain name base_point where it: "it = (name, base_point)" by (cases it)
  from Cons.prems(1) it have "(name, base_point) \<in> set m" by simp
  with assms have mo: "map_of m name = Some base_point" by simp
  have sub: "set items \<subseteq> set m" using Cons.prems(1) by simp
  note keep = Cons.IH[OF sub Cons.prems(2)]
  have upd: "\<forall>(name, delta) \<in> set (offsets_of_items items m
        (AList.update name [(''x'', 0), (''y'', 0)] acc)). delta = [(''x'', 0), (''y'', 0)]"
  proof (rule Cons.IH[OF sub])
    show "\<forall>(n, delta) \<in> set (AList.update name [(''x'', 0), (''y'', 0)] acc).
        delta = [(''x'', 0), (''y'', 0)]"
      using Cons.prems(2) by (auto dest!: set_update_cases)
  qed
  show ?case
    using keep upd by (simp add: it mo split: option.splits)
qed

lemma compute_offsets_zero:
  assumes "distinct (map fst m)"
  shows "\<forall>(name, delta) \<in> set (compute_keypoint_coordinate_offsets m m).
           delta = [(''x'', 0), (''y'', 0)]"
    and "zero_offsets (compute_keypoint_coordinate_offsets m m)"
proof -
  have "\<forall>(name, delta) \<in> set (offsets_of_items m m []). delta = [(''x'', 0), (''y'', 0)]"
    by (rule offsets_of_items_zero[OF assms]) simp_all
  then show a: "\<forall>(name, delta) \<in> set (compute_keypoint_coordinate_offsets m m).
           delta = [(''x'', 0), (''y'', 0)]"
    by (simp add: compute_keypoint_coordinate_offsets_def)
  then show "zero_offsets (compute_keypoint_coordinate_offsets m m)"
    by (auto simp add: zero_offsets_def list_all_iff)
qed

subsection \<open>Identity calibration: an example\<close>

lemmas lookup_eval = build_keypoints_lookup_def person_lookup_def py_or_def dict_get_def
  candidate_keys_def

lemma side_lookup:
  "build_keypoints_lookup side_payload =
     Inr [(KStr ''left_ear'', [(''x'', JNum 0), (''y'', JNum 0), (''confidence'', JNum (9 / 10))]),
          (KStr ''left_shoulder'', [(''x'', JNum 0), (''y'', JNum 2), (''confidence'', JNum (9 / 10))]),
          (KStr ''left_hip'', [(''x'', JNum 0), (''y'', JNum 5), (''confidence'', JNum (9 / 10))]),
          (KStr ''left_knee'', [(''x'', JNum 3), (''y'', JNum 5), (''confidence'', JNum (9 / 10))]),
          (KStr ''left_ankle'', [(''x'', JNum 3), (''y'', JNum 8), (''confidence'', JNum (9 / 10))])]"
  by (simp add: side_payload_def lookup_eval)

lemma side_coords:
  "load_keypoint_coordinates sf keypoint_files ''base_kp.json'' = Inr side_coordinates"
  "load_keypoint_coordinates sf keypoint_files ''user_kp.json'' = Inr side_coordinates"
  by (simp_all add: load_keypoint_coordinates_def keypoint_files_def
      extract_keypoint_coordinates_from_payload_def side_lookup side_coordinates_def dict_get_def)

lemma side_offsets:
  "compute_keypoint_coordinate_offsets side_coordinates side_coordinates = side_zero_offsets"
  by (simp add: compute_keypoint_coordinate_offsets_def side_coordinates_def side_zero_offsets_def)

lemma leaning_lookup:
  "build_keypoints_lookup leaning_payload =
     Inr [(KStr ''left_ear'', [(''x'', JNum 1), (''y'', JNum 0), (''confidence'', JNum (9 / 10))]),
          (KStr ''left_shoulder'', [(''x'', JNum 0), (''y'', JNum 2), (''confidence'', JNum (8 / 10))]),
          (KStr ''left_hip'', [(''x'', JNum 1), (''y'', JNum 5), (''confidence'', JNum (9 / 10))]),
          (KStr ''left_knee'', [(''x'', JNum 4), (''y'', JNum 5), (''confidence'', JNum (9 / 10))]),
          (KStr ''left_ankle'', [(''x'', JNum 3), (''y'', JNum 8), (''confidence'', JNum (9 / 10))])]"
  by (simp add: leaning_payload_def lookup_eval)

lemma leaning_extracted:
  "get_angles_from_payload sf leaning_payload = Inr (Some leaning_angles)"
  "PPD_get_angles_from_payload sf leaning_payload = Inr (Some leaning_angles)"
proof -
  have g: "geometric_angles sf leaning_payload = Inr (Some leaning_angles)"
    by (simp add: geometric_angles_def leaning_lookup angles_from_lookup_def select_side_def
        confidence_def dict_get_def part_coords_def part_key_def side_name_def
        CONFIDENCE_THRESHOLD_def leaning_angles_def Let_def)
  have d: "\<exists>d. leaning_payload = JObj d \<and> map_of d ''adjusted_angles'' = None
      \<and> map_of d ''personalized_angles'' = None \<and> map_of d ''angles'' = None
      \<and> map_of d ''reference_angles'' = None \<and> map_of d ''neck'' = None"
    by (simp add: leaning_payload_def)
  then obtain d where d: "leaning_payload = JObj d" "map_of d ''adjusted_angles'' = None"
      "map_of d ''personalized_angles'' = None" "map_of d ''angles'' = None"
      "map_of d ''reference_angles'' = None" "map_of d ''neck'' = None"
    by blast
  show "get_angles_from_payload sf leaning_payload = Inr (Some leaning_angles)"
    using g unfolding d(1)
    by (simp add: get_angles_from_payload_def angle_keys_def extract_angles_def dict_get_def
        has_key_def d)
  show "PPD_get_angles_from_payload sf leaning_payload = Inr (Some leaning_angles)"
    using g unfolding d(1)
    by (simp add: PPD_get_angles_from_payload_def PPD_angle_keys_def PPD_extract_angles_def
        dict_get_def has_key_def d)
qed

lemma leaning_reprojected:
  "apply_keypoint_offsets_to_payload sf leaning_payload side_zero_offsets = Inr leaning_payload"
  by (simp add: leaning_payload_def side_zero_offsets_def apply_keypoint_offsets_to_payload_def
      py_or_def dict_get_def persons_key_def candidate_keys_def delta_get_def)

lemma side_extracted:
  "get_angles_from_payload sf side_payload = Inr (Some side_angles)"
  "PPD_get_angles_from_payload sf side_payload = Inr (Some side_angles)"
proof -
  have g: "geometric_angles sf side_payload = Inr (Some side_angles)"
    by (simp add: geometric_angles_def side_lookup angles_from_lookup_def select_side_def
        confidence_def dict_get_def part_coords_def part_key_def side_name_def
        CONFIDENCE_THRESHOLD_def side_angles_def Let_def)
  have "\<exists>d. side_payload = JObj d \<and> map_of d ''adjusted_angles'' = None
      \<and> map_of d ''personalized_angles'' = None \<and> map_of d ''angles'' = None
      \<and> map_of d ''reference_angles'' = None \<and> map_of d ''neck'' = None"
    by (simp add: side_payload_def)
  then obtain d where d: "side_payload = JObj d" "map_of d ''adjusted_angles'' = None"
      "map_of d ''personalized_angles'' = None" "map_of d ''angles'' = None"
      "map_of d ''reference_angles'' = None" "map_of d ''neck'' = None"
    by blast
  show "get_angles_from_payload sf side_payload = Inr (Some side_angles)"
    using g unfolding d(1)
    by (simp add: get_angles_from_payload_def angle_keys_def extract_angles_def dict_get_def
        has_key_def d)
  show "PPD_get_angles_from_payload sf side_payload = Inr (Some side_angles)"
    using g unfolding d(1)
    by (simp add: PPD_get_angles_from_payload_def PPD_angle_keys_def PPD_extract_angles_def
        dict_get_def has_key_def d)
qed

lemma side_resolved:
  "resolve_reference_angles sf keypoint_files ''base_kp.json'' (Some ''user_kp.json'') =
     Inr (Some \<lparr>res_base_angles = side_angles, res_personal_angles = side_angles,
                res_offsets = angle_offsets side_angles side_angles,
                res_personal_path = ''user_kp.json''\<rparr>)"
  "PPD_resolve_reference_angles sf keypoint_files ''base_kp.json'' ''user_kp.json'' =
     Inr (Some \<lparr>res_base_angles = side_angles, res_personal_angles = side_angles,
                res_offsets = angle_offsets side_angles side_angles,
                res_personal_path = ''user_kp.json''\<rparr>)"
  by (simp_all add: resolve_reference_angles_def PPD_resolve_reference_angles_def
      get_angles_from_keypoint_file_def PPD_load_reference_angles_def keypoint_files_def
      path_exists_def side_extracted)

text \<open>
  Claim C8. Calibration is the identity when the personal reference equals the
  baseline. If a resolver returns personal angles equal to the base angles, every angle
  offset is 0. If the personal reference loads to the same keypoint coordinates as the
  baseline, every coordinate offset is (0, 0). And with such offsets the re-projected
  payload of any capture yields the angles of the raw capture, in both modules, so the
  adjusted angles computed by the preparer equal the raw angles (the re-projector
  itself must return: a keypoint name that is a list or dict makes it raise).
\<close>

theorem C8_identity_calibration:
  "(resolve_reference_angles sf fs bp pp = Inr (Some r)
      \<and> res_personal_angles r = res_base_angles r
      \<longrightarrow> (\<forall>k. res_offsets r k = 0))
   \<and> (PPD_resolve_reference_angles sf fs bp up = Inr (Some r')
      \<and> res_personal_angles r' = res_base_angles r'
      \<longrightarrow> (\<forall>k. res_offsets r' k = 0))
   \<and> (load_keypoint_coordinates sf fs bp = Inr m \<and> load_keypoint_coordinates sf fs pth = Inr m
      \<longrightarrow> (\<forall>(name, delta) \<in> set (compute_keypoint_coordinate_offsets m m).
              delta = [(''x'', 0), (''y'', 0)])
          \<and> zero_offsets (compute_keypoint_coordinate_offsets m m))
   \<and> (zero_offsets kco \<and> apply_keypoint_offsets_to_payload sf raw kco = Inr adjusted
      \<longrightarrow> get_angles_from_payload sf adjusted = get_angles_from_payload sf raw
          \<and> PPD_get_angles_from_payload sf adjusted = PPD_get_angles_from_payload sf raw)
   \<and> (zero_offsets kco \<and> apply_keypoint_offsets_to_payload sf raw kco = Inr adjusted
        \<and> get_angles_from_payload sf raw = Inr (Some current)
      \<longrightarrow> adjusted_angles_of_capture sf raw kco current offsets = Inr current)
   \<and> (zero_offsets kco \<and> apply_keypoint_offsets_to_payload sf raw kco = Inr adjusted
        \<and> PPD_get_angles_from_payload sf raw = Inr (Some current')
      \<longrightarrow> PPD_adjusted_angles_of_capture sf raw kco current' offsets = Inr current')
   \<and> (load_keypoint_coordinates sf fs bp = Inr m \<and> load_keypoint_coordinates sf fs pth = Inr m
        \<and> apply_keypoint_offsets_to_payload sf raw (compute_keypoint_coordinate_offsets m m)
            = Inr adjusted'
        \<and> get_angles_from_payload sf raw = Inr (Some current)
      \<longrightarrow> adjusted_angles_of_capture sf raw (compute_keypoint_coordinate_offsets m m)
            current offsets = Inr current)
   \<and> (load_keypoint_coordinates sf fs bp = Inr m \<and> load_keypoint_coordinates sf fs pth = Inr m
        \<and> apply_keypoint_offsets_to_payload sf raw (compute_keypoint_coordinate_offsets m m)
            = Inr adjusted'
        \<and> PPD_get_angles_from_payload sf raw = Inr (Some current')
      \<longrightarrow> PPD_adjusted_angles_of_capture sf raw (compute_keypoint_coordinate_offsets m m)
            current' offsets = Inr current')"
proof -
  have a: "\<forall>k. res_offsets r k = 0"
    if "resolve_reference_angles sf fs bp pp = Inr (Some r)"
      "res_personal_angles r = res_base_angles r"
    using that
    by (auto simp add: resolve_reference_angles_def angle_offsets_def Let_def
        split: sum.splits option.splits)
  have b: "\<forall>k. res_offsets r' k = 0"
    if "PPD_resolve_reference_angles sf fs bp up = Inr (Some r')"
      "res_personal_angles r' = res_base_angles r'"
    using that
    by (auto simp add: PPD_resolve_reference_angles_def angle_offsets_def
        split: sum.splits option.splits if_splits)
  have c: "(\<forall>(name, delta) \<in> set (compute_keypoint_coordinate_offsets m m).
              delta = [(''x'', 0), (''y'', 0)])
          \<and> zero_offsets (compute_keypoint_coordinate_offsets m m)"
    if "load_keypoint_coordinates sf fs bp = Inr m"
    using compute_offsets_zero[OF load_keypoint_coordinates_distinct[OF that]] by simp
  have d: "get_angles_from_payload sf ad = get_angles_from_payload sf raw
          \<and> PPD_get_angles_from_payload sf ad = PPD_get_angles_from_payload sf raw"
    if "zero_offsets offs" "apply_keypoint_offsets_to_payload sf raw offs = Inr ad" for offs ad
    using get_angles_zero_offsets[OF that] by simp
  have e: "adjusted_angles_of_capture sf raw offs current offsets = Inr current"
    if "zero_offsets offs" "apply_keypoint_offsets_to_payload sf raw offs = Inr ad"
      "get_angles_from_payload sf raw = Inr (Some current)" for offs ad
    using d[OF that(1,2)] that(2,3) by (simp add: adjusted_angles_of_capture_def)
  have f: "PPD_adjusted_angles_of_capture sf raw offs current' offsets = Inr current'"
    if "zero_offsets offs" "apply_keypoint_offsets_to_payload sf raw offs = Inr ad"
      "PPD_get_angles_from_payload sf raw = Inr (Some current')" for offs ad
    using d[OF that(1,2)] that(2,3) by (simp add: PPD_adjusted_angles_of_capture_def)
  show ?thesis
    apply (intro conjI impI)
    subgoal using a by blast
    subgoal using b by blast
    subgoal using c by blast
    subgoal using c by blast
    subgoal using d by blast
    subgoal using d by blast
    subgoal using e by blast
    subgoal using f by blast
    subgoal using c e by blast
    subgoal using c f by blast
    done
qed


theorem C8_identity_calibration_witness:
  "resolve_reference_angles no_numeric_strings keypoint_files ''base_kp.json''
       (Some ''user_kp.json'') =
     Inr (Some \<lparr>res_base_angles = side_angles, res_personal_angles = side_angles,
                res_offsets = angle_offsets side_angles side_angles,
                res_personal_path = ''user_kp.json''\<rparr>)
   \<and> PPD_resolve_reference_angles no_numeric_strings keypoint_files ''base_kp.json''
       ''user_kp.json'' =
     Inr (Some \<lparr>res_base_angles = side_angles, res_personal_angles = side_angles,
                res_offsets = angle_offsets side_angles side_angles,
                res_personal_path = ''user_kp.json''\<rparr>)
   \<and> (\<forall>k. angle_offsets side_angles side_angles k = 0)
   \<and> load_keypoint_coordinates no_numeric_strings keypoint_files ''base_kp.json''
        = Inr side_coordinates
   \<and> load_keypoint_coordinates no_numeric_strings keypoint_files ''user_kp.json''
        = Inr side_coordinates
   \<and> compute_keypoint_coordinate_offsets side_coordinates side_coordinates = side_zero_offsets
   \<and> zero_offsets side_zero_offsets
   \<and> apply_keypoint_offsets_to_payload no_numeric_strings leaning_payload side_zero_offsets
        = Inr leaning_payload
   \<and> get_angles_from_payload no_numeric_strings leaning_payload = Inr (Some leaning_angles)
   \<and> PPD_get_angles_from_payload no_numeric_strings leaning_payload = Inr (Some leaning_angles)
   \<and> adjusted_angles_of_capture no_numeric_strings leaning_payload
        (compute_keypoint_coordinate_offsets side_coordinates side_coordinates)
        leaning_angles (\<lambda>k. 0) = Inr leaning_angles
   \<and> PPD_adjusted_angles_of_capture no_numeric_strings leaning_payload
        (compute_keypoint_coordinate_offsets side_coordinates side_coordinates)
        leaning_angles (\<lambda>k. 0) = Inr leaning_angles"
proof -
  let ?sf = no_numeric_strings
  let ?r = "\<lparr>res_base_angles = side_angles, res_personal_angles = side_angles,
                res_offsets = angle_offsets side_angles side_angles,
                res_personal_path = ''user_kp.json''\<rparr>"
  note t = C8_identity_calibration[where sf = ?sf and fs = keypoint_files
      and bp = "''base_kp.json''" and pp = "Some ''user_kp.json''" and up = "''user_kp.json''"
      and r = ?r and r' = ?r and m = side_coordinates and pth = "''user_kp.json''"
      and kco = side_zero_offsets and raw = leaning_payload and adjusted = leaning_payload
      and adjusted' = leaning_payload and current = leaning_angles and current' = leaning_angles
      and offsets = "\<lambda>k. 0"]
  note t_res = t[THEN conjunct1]
  note r1 = t[THEN conjunct2, THEN conjunct2]
  note t_zero = r1[THEN conjunct1]
  note r2 = r1[THEN conjunct2, THEN conjunct2, THEN conjunct2, THEN conjunct2]
  note t_adj = r2[THEN conjunct1]
  note t_padj = r2[THEN conjunct2]
  have h1: "resolve_reference_angles ?sf keypoint_files ''base_kp.json''
       (Some ''user_kp.json'') = Inr (Some ?r)"
    by (rule side_resolved)
  have h1': "PPD_resolve_reference_angles ?sf keypoint_files ''base_kp.json''
       ''user_kp.json'' = Inr (Some ?r)"
    by (rule side_resolved)
  have h2: "res_personal_angles ?r = res_base_angles ?r" by simp
  from t_res h1 h2 have c1: "\<forall>k. res_offsets ?r k = 0" by blast
  then have c1': "\<forall>k. angle_offsets side_angles side_angles k = 0" by simp
  have h3: "load_keypoint_coordinates ?sf keypoint_files ''base_kp.json'' = Inr side_coordinates"
    "load_keypoint_coordinates ?sf keypoint_files ''user_kp.json'' = Inr side_coordinates"
    by (rule side_coords)+
  from t_zero h3 have "zero_offsets
      (compute_keypoint_coordinate_offsets side_coordinates side_coordinates)"
    by blast
  then have c2: "zero_offsets side_zero_offsets" by (simp add: side_offsets)
  have h4: "apply_keypoint_offsets_to_payload ?sf leaning_payload
      (compute_keypoint_coordinate_offsets side_coordinates side_coordinates) = Inr leaning_payload"
    by (simp add: side_offsets leaning_reprojected)
  have h5: "get_angles_from_payload ?sf leaning_payload = Inr (Some leaning_angles)"
    "PPD_get_angles_from_payload ?sf leaning_payload = Inr (Some leaning_angles)"
    by (rule leaning_extracted)+
  from t_adj h3 h4 h5(1) have c3: "adjusted_angles_of_capture ?sf leaning_payload
        (compute_keypoint_coordinate_offsets side_coordinates side_coordinates)
        leaning_angles (\<lambda>k. 0) = Inr leaning_angles"
    by blast
  from t_padj h3 h4 h5(2) have c4: "PPD_adjusted_angles_of_capture ?sf leaning_payload
        (compute_keypoint_coordinate_offsets side_coordinates side_coordinates)
        leaning_angles (\<lambda>k. 0) = Inr leaning_angles"
    by blast
  show ?thesis
    apply (intro conjI)
    subgoal by (rule h1)
    subgoal by (rule h1')
    subgoal by (rule c1')
    subgoal by (rule h3(1))
    subgoal by (rule h3(2))
    subgoal by (rule side_offsets)
    subgoal by (rule c2)
    subgoal by (rule leaning_reprojected)
    subgoal by (rule h5(1))
    subgoal by (rule h5(2))
    subgoal by (rule c3)
    subgoal by (rule c4)
    done
qed

end
